theory Spec2Isabelle
  imports Complex_Main "HOL-Library.Multiset" "HOL-Library.Product_Lexorder"
begin

section \<open>Tensor values\<close>

text \<open>
  The loss of \<^verbatim>\<open>loss/loss_yolact.py\<close> is computed on \<^verbatim>\<open>float32\<close> tensors. A tensor entry is
  modelled as a real number or one of the three special values of IEEE arithmetic, so that
  a division by zero or the logarithm of a non-positive number is a value of the model, as
  it is a value of the program, and not the arbitrary result of HOL's total division.
  Rounding, overflow to infinity of finite results and the sign of zero are not modelled:
  every finite result is the exact real one.
\<close>

datatype tf_float = Fin real | PInf | NInf | NaN

instantiation tf_float :: "{comm_monoid_add, uminus, minus, times, inverse}"
begin

definition zero_tf_float :: tf_float where
  "zero_tf_float = Fin 0"

fun plus_tf_float :: "tf_float \<Rightarrow> tf_float \<Rightarrow> tf_float" where
  "plus_tf_float (Fin a) (Fin b) = Fin (a + b)"
| "plus_tf_float (Fin a) PInf = PInf"
| "plus_tf_float (Fin a) NInf = NInf"
| "plus_tf_float PInf (Fin b) = PInf"
| "plus_tf_float NInf (Fin b) = NInf"
| "plus_tf_float PInf PInf = PInf"
| "plus_tf_float NInf NInf = NInf"
| "plus_tf_float PInf NInf = NaN"
| "plus_tf_float NInf PInf = NaN"
| "plus_tf_float NaN y = NaN"
| "plus_tf_float x NaN = NaN"

fun uminus_tf_float :: "tf_float \<Rightarrow> tf_float" where
  "uminus_tf_float (Fin a) = Fin (- a)"
| "uminus_tf_float PInf = NInf"
| "uminus_tf_float NInf = PInf"
| "uminus_tf_float NaN = NaN"

definition minus_tf_float :: "tf_float \<Rightarrow> tf_float \<Rightarrow> tf_float" where
  "minus_tf_float x y = x + (- y)"

fun times_tf_float :: "tf_float \<Rightarrow> tf_float \<Rightarrow> tf_float" where
  "times_tf_float (Fin a) (Fin b) = Fin (a * b)"
| "times_tf_float (Fin a) PInf = (if a = 0 then NaN else if 0 < a then PInf else NInf)"
| "times_tf_float (Fin a) NInf = (if a = 0 then NaN else if 0 < a then NInf else PInf)"
| "times_tf_float PInf (Fin b) = (if b = 0 then NaN else if 0 < b then PInf else NInf)"
| "times_tf_float NInf (Fin b) = (if b = 0 then NaN else if 0 < b then NInf else PInf)"
| "times_tf_float PInf PInf = PInf"
| "times_tf_float NInf NInf = PInf"
| "times_tf_float PInf NInf = NInf"
| "times_tf_float NInf PInf = NInf"
| "times_tf_float NaN y = NaN"
| "times_tf_float x NaN = NaN"

fun divide_tf_float :: "tf_float \<Rightarrow> tf_float \<Rightarrow> tf_float" where
  "divide_tf_float (Fin a) (Fin b) =
     (if b = 0 then (if a = 0 then NaN else if 0 < a then PInf else NInf) else Fin (a / b))"
| "divide_tf_float (Fin a) PInf = Fin 0"
| "divide_tf_float (Fin a) NInf = Fin 0"
| "divide_tf_float PInf (Fin b) = (if 0 \<le> b then PInf else NInf)"
| "divide_tf_float NInf (Fin b) = (if 0 \<le> b then NInf else PInf)"
| "divide_tf_float PInf PInf = NaN"
| "divide_tf_float NInf NInf = NaN"
| "divide_tf_float PInf NInf = NaN"
| "divide_tf_float NInf PInf = NaN"
| "divide_tf_float NaN y = NaN"
| "divide_tf_float x NaN = NaN"

definition inverse_tf_float :: "tf_float \<Rightarrow> tf_float" where
  "inverse_tf_float x = divide (Fin 1) x"

instance
proof
  fix x y z :: tf_float
  show "0 + x = x"
    unfolding zero_tf_float_def by (cases x) auto
  show "x + y = y + x"
    by (cases x) (case_tac [!] y, auto)
  show "x + y + z = x + (y + z)"
    by (cases x) (case_tac [!] y, case_tac [!] z, auto)
qed

end

text \<open>The comparisons of IEEE arithmetic: every comparison with \<open>NaN\<close> is false.\<close>

fun fle :: "tf_float \<Rightarrow> tf_float \<Rightarrow> bool" where
  "fle (Fin a) (Fin b) = (a \<le> b)"
| "fle NaN y = False"
| "fle x NaN = False"
| "fle NInf y = True"
| "fle x PInf = True"
| "fle PInf y = False"
| "fle x NInf = False"

fun fabs :: "tf_float \<Rightarrow> tf_float" where
  "fabs (Fin a) = Fin \<bar>a\<bar>"
| "fabs PInf = PInf"
| "fabs NInf = PInf"
| "fabs NaN = NaN"

fun flog :: "tf_float \<Rightarrow> tf_float" where
  "flog (Fin a) = (if 0 < a then Fin (ln a) else if a = 0 then NInf else NaN)"
| "flog PInf = PInf"
| "flog NInf = NaN"
| "flog NaN = NaN"

fun fexp :: "tf_float \<Rightarrow> tf_float" where
  "fexp (Fin a) = Fin (exp a)"
| "fexp PInf = PInf"
| "fexp NInf = Fin 0"
| "fexp NaN = NaN"

fun flog1p :: "tf_float \<Rightarrow> tf_float" where
  "flog1p (Fin a) = (if - 1 < a then Fin (ln (1 + a)) else if a = - 1 then NInf else NaN)"
| "flog1p PInf = PInf"
| "flog1p NInf = NaN"
| "flog1p NaN = NaN"

type_synonym tensor1 = "tf_float list"
type_synonym tensor2 = "tf_float list list"
type_synonym tensor3 = "tf_float list list list"
type_synonym tensor4 = "tf_float list list list list"

section \<open>TensorFlow operations\<close>

text \<open>
  Tensors are nested lists, outermost axis first. An operation that TensorFlow rejects (an
  index out of range in a gather, a scatter or a slice, shapes that do not fit) returns
  \<open>Inl InvalidArgument\<close>, as the exception would end the call.
\<close>

datatype tf_error = InvalidArgument

definition tf_index :: "'a list \<Rightarrow> nat \<Rightarrow> tf_error + 'a" where
  "tf_index xs idx = (if idx < length xs then Inr (xs ! idx) else Inl InvalidArgument)"

fun sequence_err :: "(tf_error + 'a) list \<Rightarrow> tf_error + 'a list" where
  "sequence_err [] = Inr []"
| "sequence_err (m # ms) =
     (case m of
        Inl e \<Rightarrow> Inl e
      | Inr x \<Rightarrow> (case sequence_err ms of Inl e \<Rightarrow> Inl e | Inr xs \<Rightarrow> Inr (x # xs)))"

text \<open>\<^verbatim>\<open>tf.where(t == v)\<close> on a vector and on a matrix: the indices, in row-major order.\<close>

definition tf_where_eq :: "int list \<Rightarrow> int \<Rightarrow> nat list" where
  "tf_where_eq t v = filter (\<lambda>i. t ! i = v) [0..<length t]"

definition tf_where_eq2 :: "int list list \<Rightarrow> int \<Rightarrow> (nat \<times> nat) list" where
  "tf_where_eq2 t v =
     concat (map (\<lambda>b. map (\<lambda>a. (b, a)) (tf_where_eq (t ! b) v)) [0..<length t])"

text \<open>\<^verbatim>\<open>tf.gather\<close> along axis 0 and \<^verbatim>\<open>tf.gather_nd\<close> with index pairs.\<close>

definition tf_gather :: "'a list \<Rightarrow> nat list \<Rightarrow> tf_error + 'a list" where
  "tf_gather params indices = sequence_err (map (tf_index params) indices)"

definition tf_gather_nd :: "'a list list \<Rightarrow> (nat \<times> nat) list \<Rightarrow> tf_error + 'a list" where
  "tf_gather_nd params indices =
     sequence_err (map (\<lambda>(b, a).
        case tf_index params b of Inl e \<Rightarrow> Inl e | Inr row \<Rightarrow> tf_index row a) indices)"

text \<open>
  An elementwise binary operation on two vectors, with TensorFlow's broadcasting of an
  axis of size 1.
\<close>

definition tf_broadcast :: "(tf_float \<Rightarrow> tf_float \<Rightarrow> tf_float) \<Rightarrow> tensor1 \<Rightarrow> tensor1
    \<Rightarrow> tf_error + tensor1" where
  "tf_broadcast f xs ys =
     (if length xs = length ys then Inr (map2 f xs ys)
      else if length xs = 1 then Inr (map (f (xs ! 0)) ys)
      else if length ys = 1 then Inr (map (\<lambda>x. f x (ys ! 0)) xs)
      else Inl InvalidArgument)"

definition reduce_sum :: "tensor1 \<Rightarrow> tf_float" where
  "reduce_sum xs = foldl (+) (Fin 0) xs"

definition reduce_mean :: "tensor1 \<Rightarrow> tf_float" where
  "reduce_mean xs = reduce_sum xs / Fin (real (length xs))"

section \<open>The localization loss\<close>

text \<open>
  \<^verbatim>\<open>tf.keras.losses.Huber(delta=1., reduction=NONE)\<close>: the Huber function of every
  coordinate, and then the mean over the last axis, one value per row.
\<close>

definition huber_elem :: "tf_float \<Rightarrow> tf_float \<Rightarrow> tf_float \<Rightarrow> tf_float" where
  "huber_elem delta y_true y_pred =
     (let error = y_pred - y_true;
          abs_error = fabs error;
          half = Fin (1 / 2)
      in if fle abs_error delta then half * (error * error)
         else delta * abs_error - half * (delta * delta))"

definition huber :: "tf_float \<Rightarrow> tensor1 \<Rightarrow> tensor1 \<Rightarrow> tf_error + tf_float" where
  "huber delta y_true y_pred =
     (case tf_broadcast (\<lambda>p t. huber_elem delta t p) y_pred y_true of
        Inl e \<Rightarrow> Inl e
      | Inr hs \<Rightarrow> Inr (reduce_mean hs))"

definition loss_location :: "tensor3 \<Rightarrow> tensor3 \<Rightarrow> int list list \<Rightarrow> tf_error + tf_float" where
  "loss_location pred_offset gt_offset positiveness =
     (let pos_indices = tf_where_eq2 positiveness 1 in
      case tf_gather_nd pred_offset pos_indices of
        Inl e \<Rightarrow> Inl e
      | Inr pred_offset' \<Rightarrow>
      (case tf_gather_nd gt_offset pos_indices of
         Inl e \<Rightarrow> Inl e
       | Inr gt_offset' \<Rightarrow>
       (let num_pos = length gt_offset' in
        case sequence_err (map2 (huber (Fin 1)) gt_offset' pred_offset') of
          Inl e \<Rightarrow> Inl e
        | Inr smoothl1loss \<Rightarrow> Inr (reduce_sum smoothl1loss / Fin (real num_pos)))))"

section \<open>The classification loss\<close>

text \<open>
  \<^verbatim>\<open>tf.reshape(t, [-1, n])\<close> of a tensor given by its entries in row-major order: rows of
  \<open>n\<close> entries. The reshape fails when the entries do not fill whole rows.
\<close>

fun chunks :: "nat \<Rightarrow> 'a list \<Rightarrow> 'a list list" where
  "chunks n xs = (if n = 0 \<or> xs = [] then [] else take n xs # chunks n (drop n xs))"

declare chunks.simps [simp del]

definition tf_reshape_rows :: "nat \<Rightarrow> 'a list \<Rightarrow> tf_error + 'a list list" where
  "tf_reshape_rows n flat =
     (if n = 0 \<or> length flat mod n \<noteq> 0 then Inl InvalidArgument else Inr (chunks n flat))"

text \<open>
  \<^verbatim>\<open>tf.argsort(values, direction="DESCENDING")\<close> is \<^verbatim>\<open>tf.math.top_k\<close> with \<open>k\<close> the
  number of values. The CPU kernel fills the indices \<open>0, \<dots>, k - 1\<close>, sorts them with
  \<^verbatim>\<open>std::sort\<close> under the comparison \<^verbatim>\<open>values[b] < values[a]\<close>, and then sorts by index
  every run of adjacent indices of equal values.

  The comparisons are the ones of IEEE arithmetic: a comparison with \<open>NaN\<close> is false, so
  that \<open>NaN\<close> stays where the sort meets it and its place depends on its position among the
  values. \<^verbatim>\<open>std::sort\<close> is modelled as what it is in the GNU library on up to 16
  elements, the insertion of one element after the other into the sorted part: an element
  that goes before the first one is put in front, any other one moves towards the front as
  long as it goes before its neighbour. The sorted part is held from its last element to
  its first. On longer lists the library partitions first. As long as no value is \<open>NaN\<close>
  the comparison is a strict weak order, and the result is the one of every sort: the
  values from the largest to the smallest, the lower index first among equal values (lemma
  \<open>tf_argsort_descending_sort_key\<close>). The order of more than 16 values with a \<open>NaN\<close> among
  them is not modelled, and no statement below depends on it.
\<close>

fun flt :: "tf_float \<Rightarrow> tf_float \<Rightarrow> bool" where
  "flt (Fin a) (Fin b) = (a < b)"
| "flt NaN y = False"
| "flt x NaN = False"
| "flt PInf y = False"
| "flt x NInf = False"
| "flt NInf y = True"
| "flt x PInf = True"

definition feq :: "tf_float \<Rightarrow> tf_float \<Rightarrow> bool" where
  "feq x y = (x \<noteq> NaN \<and> x = y)"

fun unguarded_linear_insert :: "('a \<Rightarrow> 'a \<Rightarrow> bool) \<Rightarrow> 'a \<Rightarrow> 'a list \<Rightarrow> 'a list" where
  "unguarded_linear_insert cmp val [] = [val]"
| "unguarded_linear_insert cmp val (p # earlier) =
     (if cmp val p then p # unguarded_linear_insert cmp val earlier else val # p # earlier)"

definition insertion_sort_step :: "('a \<Rightarrow> 'a \<Rightarrow> bool) \<Rightarrow> 'a list \<Rightarrow> 'a \<Rightarrow> 'a list" where
  "insertion_sort_step cmp sorted_part val =
     (if sorted_part \<noteq> [] \<and> cmp val (last sorted_part) then sorted_part @ [val]
      else unguarded_linear_insert cmp val sorted_part)"

definition insertion_sort :: "('a \<Rightarrow> 'a \<Rightarrow> bool) \<Rightarrow> 'a list \<Rightarrow> 'a list" where
  "insertion_sort cmp xs = rev (foldl (insertion_sort_step cmp) [] xs)"

function sort_runs :: "tensor1 \<Rightarrow> nat list \<Rightarrow> nat list" where
  "sort_runs input [] = []"
| "sort_runs input (i # rest) =
     sort (i # takeWhile (\<lambda>j. feq (input ! i) (input ! j)) rest)
     @ sort_runs input (dropWhile (\<lambda>j. feq (input ! i) (input ! j)) rest)"
  by pat_completeness auto

termination
  by (relation "measure (\<lambda>(input, indices). length indices)")
     (auto simp: length_dropWhile_le less_Suc_eq_le)

definition tf_argsort_descending :: "tensor1 \<Rightarrow> nat list" where
  "tf_argsort_descending values =
     sort_runs values
       (insertion_sort (\<lambda>a b. flt (values ! b) (values ! a)) [0..<length values])"

text \<open>The Python slice \<^verbatim>\<open>xs[:n]\<close>: a negative \<open>n\<close> counts from the end.\<close>

definition slice_to :: "'a list \<Rightarrow> int \<Rightarrow> 'a list" where
  "slice_to xs n = (if n < 0 then take (nat (int (length xs) + n)) xs else take (nat n) xs)"

text \<open>\<^verbatim>\<open>tf.one_hot\<close>: a label outside \<open>0..<depth\<close> gives a row of zeros.\<close>

definition one_hot :: "nat \<Rightarrow> int \<Rightarrow> tensor1" where
  "one_hot depth l = map (\<lambda>j. if int j = l then Fin 1 else Fin 0) [0..<depth]"

text \<open>
  \<^verbatim>\<open>tf.nn.softmax_cross_entropy_with_logits(labels, logits)\<close> of one row: the sum of
  \<open>labels\<^sub>j * (log (\<Sum>\<^sub>k exp logits\<^sub>k) - logits\<^sub>j)\<close>. (The kernel subtracts the largest logit before
  the exponential, which changes the rounding only.)
\<close>

definition softmax_cross_entropy_with_logits :: "tensor1 \<Rightarrow> tensor1 \<Rightarrow> tf_float" where
  "softmax_cross_entropy_with_logits labels logits =
     (let lse = flog (reduce_sum (map fexp logits))
      in reduce_sum (map2 (\<lambda>y l. y * (lse - l)) labels logits))"

record YOLACTLoss =
  num_classes :: nat
  classification_loss_weight :: tf_float
  box_prediction_loss_weight :: tf_float
  mask_loss_weight :: tf_float
  segmentation_loss_weight :: tf_float
  neg_pos_ratio :: int
  max_masks_for_train :: int

text \<open>The constructor with its default arguments.\<close>

definition YOLACTLoss_init :: "nat \<Rightarrow> YOLACTLoss" where
  "YOLACTLoss_init n =
     \<lparr>num_classes = n,
      classification_loss_weight = Fin 1,
      box_prediction_loss_weight = Fin (3 / 2),
      mask_loss_weight = Fin (49 / 8),
      segmentation_loss_weight = Fin 1,
      neg_pos_ratio = 3,
      max_masks_for_train = 100\<rparr>"

text \<open>
  The hard negative mining of \<^verbatim>\<open>_loss_class\<close> (lines 84 to 101): from the logits of the
  negative anchors and the number of positive anchors to the positions, among the
  negatives, of the ones that enter the loss. The score is the logarithm of the raw
  class 0 logit: \<^verbatim>\<open>neg_softmax = neg_pred_cls\<close>. The count \<^verbatim>\<open>num_pos\<close> is an
  \<^verbatim>\<open>int32\<close> tensor, so the product wraps around.
\<close>

definition neg_minus_log_class0 :: "tensor2 \<Rightarrow> tf_error + tensor1" where
  "neg_minus_log_class0 neg_softmax =
     sequence_err (map (\<lambda>row.
        case tf_index row 0 of Inl e \<Rightarrow> Inl e | Inr p \<Rightarrow> Inr (Fin (- 1) * flog p)) neg_softmax)"

definition neg_indices_for_loss :: "YOLACTLoss \<Rightarrow> nat \<Rightarrow> tensor2 \<Rightarrow> tf_error + nat list" where
  "neg_indices_for_loss self num_pos neg_pred_cls =
     (let num_neg_needed = signed_take_bit 31 (int num_pos * neg_pos_ratio self);
          neg_softmax = neg_pred_cls
      in case neg_minus_log_class0 neg_softmax of
           Inl e \<Rightarrow> Inl e
         | Inr scores \<Rightarrow>
             (let neg_minus_log_class0_sort = tf_argsort_descending scores
              in Inr (slice_to neg_minus_log_class0_sort num_neg_needed)))"

definition loss_class :: "YOLACTLoss \<Rightarrow> tensor3 \<Rightarrow> int list list \<Rightarrow> int list list
    \<Rightarrow> tf_error + tf_float" where
  "loss_class self pred_cls gt_cls positiveness =
     (case tf_reshape_rows (num_classes self) (concat (concat pred_cls)) of
        Inl e \<Rightarrow> Inl e
      | Inr pred_cls' \<Rightarrow>
      (let gt_cls' = concat gt_cls;
           positiveness' = concat positiveness;
           pos_indices = tf_where_eq positiveness' 1;
           neg_indices = tf_where_eq positiveness' 0
       in case tf_gather pred_cls' pos_indices of Inl e \<Rightarrow> Inl e | Inr pos_pred_cls \<Rightarrow>
         (case tf_gather gt_cls' pos_indices of Inl e \<Rightarrow> Inl e | Inr pos_gt \<Rightarrow>
         (let num_pos = length pos_gt in
          case tf_gather pred_cls' neg_indices of Inl e \<Rightarrow> Inl e | Inr neg_pred_cls \<Rightarrow>
         (case tf_gather gt_cls' neg_indices of Inl e \<Rightarrow> Inl e | Inr neg_gt \<Rightarrow>
         (case neg_indices_for_loss self num_pos neg_pred_cls of
            Inl e \<Rightarrow> Inl e
          | Inr neg_idx \<Rightarrow>
         (case tf_gather neg_pred_cls neg_idx of Inl e \<Rightarrow> Inl e | Inr neg_pred_cls_for_loss \<Rightarrow>
         (case tf_gather neg_gt neg_idx of Inl e \<Rightarrow> Inl e | Inr neg_gt_for_loss \<Rightarrow>
         (let target_logits = pos_pred_cls @ neg_pred_cls_for_loss;
              target_labels = map (one_hot (num_classes self)) (pos_gt @ neg_gt_for_loss)
          in Inr (reduce_sum (map2 softmax_cross_entropy_with_logits target_labels target_logits)
                  / Fin (real num_pos)))))))))))"

section \<open>The mask loss\<close>

text \<open>
  An elementwise operation of two tensors of the same shape; TensorFlow rejects two shapes
  that differ.
\<close>

definition zip_with_err :: "('a \<Rightarrow> 'b \<Rightarrow> tf_error + 'c) \<Rightarrow> 'a list \<Rightarrow> 'b list
    \<Rightarrow> tf_error + 'c list" where
  "zip_with_err f xs ys =
     (if length xs = length ys then sequence_err (map2 f xs ys) else Inl InvalidArgument)"

text \<open>
  \<^verbatim>\<open>tf.nn.sigmoid_cross_entropy_with_logits(labels, logits)\<close>, as TensorFlow computes it:
  \<open>max(x, 0) - x * z + log(1 + exp(-|x|))\<close>.
\<close>

definition sigmoid_ce :: "tf_float \<Rightarrow> tf_float \<Rightarrow> tf_float" where
  "sigmoid_ce labels logits =
     (let cond = fle (Fin 0) logits;
          relu_logits = (if cond then logits else Fin 0);
          neg_abs_logits = (if cond then - logits else logits)
      in (relu_logits - logits * labels) + flog1p (fexp neg_abs_logits))"

definition sigmoid_cross_entropy_with_logits1 :: "tensor1 \<Rightarrow> tensor1 \<Rightarrow> tf_error + tensor1" where
  "sigmoid_cross_entropy_with_logits1 = zip_with_err (\<lambda>z x. Inr (sigmoid_ce z x))"

definition sigmoid_cross_entropy_with_logits2 :: "tensor2 \<Rightarrow> tensor2 \<Rightarrow> tf_error + tensor2" where
  "sigmoid_cross_entropy_with_logits2 = zip_with_err sigmoid_cross_entropy_with_logits1"

definition sigmoid_cross_entropy_with_logits3 :: "tensor3 \<Rightarrow> tensor3 \<Rightarrow> tf_error + tensor3" where
  "sigmoid_cross_entropy_with_logits3 = zip_with_err sigmoid_cross_entropy_with_logits2"

text \<open>\<^verbatim>\<open>tf.gather\<close> with the indices of an integer tensor.\<close>

definition tf_gather_int :: "'a list \<Rightarrow> int list \<Rightarrow> tf_error + 'a list" where
  "tf_gather_int params indices =
     sequence_err (map (\<lambda>i. if 0 \<le> i then tf_index params (nat i) else Inl InvalidArgument)
       indices)"

text \<open>
  \<^verbatim>\<open>tf.linalg.matmul(proto, pos_mask_coef, transpose_b=True)\<close> of the prototypes
  \<open>[H, W, K]\<close> and the coefficients \<open>[P, K]\<close>: the tensor \<open>[H, W, P]\<close> of the dot products.
  The two inner sizes \<open>K\<close> must agree.
\<close>

definition tf_dot :: "tensor1 \<Rightarrow> tensor1 \<Rightarrow> tf_float" where
  "tf_dot v c = reduce_sum (map2 (*) v c)"

definition matmul_transpose_b :: "tensor3 \<Rightarrow> tensor2 \<Rightarrow> tf_error + tensor3" where
  "matmul_transpose_b a b =
     (if list_all (\<lambda>row. list_all (\<lambda>v. list_all (\<lambda>c. length v = length c) b) row) a
      then Inr (map (map (\<lambda>v. map (tf_dot v) b)) a)
      else Inl InvalidArgument)"

text \<open>
  \<^verbatim>\<open>tf.transpose(t, perm=(2, 0, 1))\<close>. A nested list with an empty outer axis does not
  record the sizes of its inner axes, so the size \<open>n\<close> of the last axis is an argument.
\<close>

definition transpose_201 :: "nat \<Rightarrow> 'a list list list \<Rightarrow> 'a list list list" where
  "transpose_201 n t = map (\<lambda>p. map (map (\<lambda>v. v ! p)) t) [0..<n]"

text \<open>\<^verbatim>\<open>bbox_center[:, -1] * bbox_center[:, -2]\<close>.\<close>

definition box_area :: "tensor2 \<Rightarrow> tf_error + tensor1" where
  "box_area bbox_center =
     sequence_err (map (\<lambda>r.
        if 2 \<le> length r then Inr (r ! (length r - 1) * r ! (length r - 2))
        else Inl InvalidArgument) bbox_center)"

text \<open>
  The module \<^verbatim>\<open>utils\<close> is not among the sources: its two functions
  \<^verbatim>\<open>utils.map_to_center_form\<close> and \<^verbatim>\<open>utils.crop\<close> are parameters of the model.
\<close>

record utils =
  map_to_center_form :: "tensor2 \<Rightarrow> tensor2"
  crop :: "tensor3 \<Rightarrow> tensor2 \<Rightarrow> tensor3"

text \<open>
  The body of the loop of \<^verbatim>\<open>_loss_mask\<close> for one image: the sum of the losses of its
  positive anchors, and their number. (\<^verbatim>\<open>tf.squeeze\<close> makes a scalar of a single
  positive index, and the branch on \<^verbatim>\<open>tf.size(pos_indices) == 1\<close> restores the axis, so
  the gathered tensors have one row per positive anchor in every case.)
\<close>

definition loss_mask_image :: "utils \<Rightarrow> tensor3 \<Rightarrow> tensor2 \<Rightarrow> tensor3 \<Rightarrow> tensor2 \<Rightarrow> int list
    \<Rightarrow> int list \<Rightarrow> tf_error + (tf_float \<times> nat)" where
  "loss_mask_image u proto mask_coef mask_gt bbox_norm pos max_id =
     (let pos_indices = tf_where_eq pos 1 in
      case tf_gather mask_coef pos_indices of Inl e \<Rightarrow> Inl e | Inr pos_mask_coef \<Rightarrow>
     (case tf_gather max_id pos_indices of Inl e \<Rightarrow> Inl e | Inr pos_max_id \<Rightarrow>
     (case matmul_transpose_b proto pos_mask_coef of Inl e \<Rightarrow> Inl e | Inr pm \<Rightarrow>
     (let pred_mask = transpose_201 (length pos_mask_coef) pm in
      case tf_gather_int mask_gt pos_max_id of Inl e \<Rightarrow> Inl e | Inr gt \<Rightarrow>
     (case tf_gather_int bbox_norm pos_max_id of Inl e \<Rightarrow> Inl e | Inr bbox \<Rightarrow>
     (let bbox_center = map_to_center_form u bbox in
      case box_area bbox_center of Inl e \<Rightarrow> Inl e | Inr area \<Rightarrow>
     (case sigmoid_cross_entropy_with_logits3 gt pred_mask of Inl e \<Rightarrow> Inl e | Inr s \<Rightarrow>
     (let s' = crop u s bbox in
      case tf_broadcast (/) (map (\<lambda>m. reduce_sum (concat m)) s') area of
        Inl e \<Rightarrow> Inl e
      | Inr loss \<Rightarrow> Inr (reduce_sum loss, length pos_indices)))))))))"

fun loss_mask_loop :: "utils \<Rightarrow> tensor4 \<Rightarrow> tensor3 \<Rightarrow> tensor3 \<Rightarrow> tensor4 \<Rightarrow> int list list
    \<Rightarrow> int list list \<Rightarrow> nat list \<Rightarrow> tf_float \<times> nat \<Rightarrow> tf_error + (tf_float \<times> nat)" where
  "loss_mask_loop u protonet_output pred_mask_coef gt_bbox_norm gt_masks positiveness
       max_id_for_anchors [] acc = Inr acc"
| "loss_mask_loop u protonet_output pred_mask_coef gt_bbox_norm gt_masks positiveness
       max_id_for_anchors (idx # idxs) (loss_mask, total_pos) =
     (case tf_index protonet_output idx of Inl e \<Rightarrow> Inl e | Inr proto \<Rightarrow>
     (case tf_index pred_mask_coef idx of Inl e \<Rightarrow> Inl e | Inr mask_coef \<Rightarrow>
     (case tf_index gt_masks idx of Inl e \<Rightarrow> Inl e | Inr mask_gt \<Rightarrow>
     (case tf_index gt_bbox_norm idx of Inl e \<Rightarrow> Inl e | Inr bbox_norm \<Rightarrow>
     (case tf_index positiveness idx of Inl e \<Rightarrow> Inl e | Inr pos \<Rightarrow>
     (case tf_index max_id_for_anchors idx of Inl e \<Rightarrow> Inl e | Inr max_id \<Rightarrow>
     (case loss_mask_image u proto mask_coef mask_gt bbox_norm pos max_id of
        Inl e \<Rightarrow> Inl e
      | Inr (l, n) \<Rightarrow>
          loss_mask_loop u protonet_output pred_mask_coef gt_bbox_norm gt_masks positiveness
            max_id_for_anchors idxs (loss_mask + l, total_pos + n))))))))"

definition loss_mask :: "utils \<Rightarrow> tensor4 \<Rightarrow> tensor3 \<Rightarrow> tensor3 \<Rightarrow> tensor4 \<Rightarrow> int list list
    \<Rightarrow> int list list \<Rightarrow> int \<Rightarrow> tf_error + tf_float" where
  "loss_mask u protonet_output pred_mask_coef gt_bbox_norm gt_masks positiveness
       max_id_for_anchors max_masks_for_train' =
     (let batch_size = length protonet_output in
      case loss_mask_loop u protonet_output pred_mask_coef gt_bbox_norm gt_masks positiveness
             max_id_for_anchors [0..<batch_size] (Fin 0, 0) of
        Inl e \<Rightarrow> Inl e
      | Inr (loss_mask, total_pos) \<Rightarrow> Inr (loss_mask / Fin (real total_pos)))"

section \<open>The semantic segmentation loss\<close>

text \<open>
  The sizes of the three axes of a nested list (the inner sizes of an empty axis read 0).
\<close>

definition dims3 :: "'a list list list \<Rightarrow> nat \<times> nat \<times> nat" where
  "dims3 t =
     (case t of
        [] \<Rightarrow> (0, 0, 0)
      | r # _ \<Rightarrow> (case r of [] \<Rightarrow> (length t, 0, 0) | v # _ \<Rightarrow> (length t, length r, length v)))"

text \<open>
  \<^verbatim>\<open>tf.image.resize(masks, [h, w], method=BILINEAR)\<close> of one mask: TensorFlow 2 samples at
  half-pixel centres, without antialiasing. An empty image is rejected.
\<close>

definition interpolation_weights :: "nat \<Rightarrow> nat \<Rightarrow> nat \<Rightarrow> nat \<times> nat \<times> real" where
  "interpolation_weights in_size out_size i =
     (let scale = real in_size / real out_size;
          x = (real i + 1 / 2) * scale - 1 / 2
      in (nat (max \<lfloor>x\<rfloor> 0), nat (min \<lceil>x\<rceil> (int in_size - 1)), x - real_of_int \<lfloor>x\<rfloor>))"

definition resize_bilinear :: "nat \<Rightarrow> nat \<Rightarrow> tensor2 \<Rightarrow> tf_error + tensor2" where
  "resize_bilinear out_h out_w img =
     (case img of
        [] \<Rightarrow> Inl InvalidArgument
      | r # _ \<Rightarrow>
          if r = [] \<or> out_h = 0 \<or> out_w = 0 then Inl InvalidArgument
          else Inr (map (\<lambda>y.
            case interpolation_weights (length img) out_h y of (y0, y1, y_lerp) \<Rightarrow>
              map (\<lambda>x.
                case interpolation_weights (length r) out_w x of (x0, x1, x_lerp) \<Rightarrow>
                  (let top_left = img ! y0 ! x0; top_right = img ! y0 ! x1;
                       bottom_left = img ! y1 ! x0; bottom_right = img ! y1 ! x1;
                       top = top_left + (top_right - top_left) * Fin x_lerp;
                       bottom = bottom_left + (bottom_right - bottom_left) * Fin x_lerp
                   in top + (bottom - top) * Fin y_lerp)) [0..<out_w]) [0..<out_h]))"

text \<open>
  \<^verbatim>\<open>tf.cast(x, tf.int64)\<close> truncates towards zero. What it gives outside the range of
  \<^verbatim>\<open>int64\<close> depends on the platform; the model takes the least \<^verbatim>\<open>int64\<close>, as x86 does.
\<close>

definition tf_cast_int64 :: "tf_float \<Rightarrow> int" where
  "tf_cast_int64 v =
     (case v of
        Fin a \<Rightarrow>
          (let t = (if 0 \<le> a then \<lfloor>a\<rfloor> else \<lceil>a\<rceil>)
           in if - (2 ^ 63) \<le> t \<and> t < 2 ^ 63 then t else - (2 ^ 63))
      | _ \<Rightarrow> - (2 ^ 63))"

text \<open>Lines 177 to 180: the masks of one image at the resolution of the segmentation.\<close>

definition binarize :: "tf_float \<Rightarrow> tf_float" where
  "binarize v = Fin (real_of_int (tf_cast_int64 (v + Fin (1 / 2))))"

definition resize_masks :: "nat \<Rightarrow> tensor3 \<Rightarrow> tf_error + tensor3" where
  "resize_masks seg_shape masks =
     (case sequence_err (map (resize_bilinear seg_shape seg_shape) masks) of
        Inl e \<Rightarrow> Inl e
      | Inr resized \<Rightarrow> Inr (map (map (map binarize)) resized))"

text \<open>
  \<^verbatim>\<open>tf.tensor_scatter_nd_update(tensor, indices, updates)\<close> with indices of shape
  \<open>[n, 1]\<close>: the updates replace whole rows of the tensor, one after the other, so that
  the last update of a row stays. An index outside the tensor is rejected.
\<close>

fun scatter_rows :: "'a list \<Rightarrow> (int \<times> 'a) list \<Rightarrow> tf_error + 'a list" where
  "scatter_rows t [] = Inr t"
| "scatter_rows t ((i, upd) # rest) =
     (if 0 \<le> i \<and> nat i < length t then scatter_rows (t[nat i := upd]) rest
      else Inl InvalidArgument)"

definition tensor_scatter_nd_update :: "'a list \<Rightarrow> int list \<Rightarrow> 'a list \<Rightarrow> tf_error + 'a list" where
  "tensor_scatter_nd_update tensor indices updates =
     (if length indices = length updates then scatter_rows tensor (zip indices updates)
      else Inl InvalidArgument)"

text \<open>\<^verbatim>\<open>tf.transpose(t, perm=(1, 2, 0))\<close> of a tensor \<open>[C, h, w]\<close>.\<close>

definition transpose_120 :: "nat \<Rightarrow> nat \<Rightarrow> 'a list list list \<Rightarrow> 'a list list list" where
  "transpose_120 h w t = map (\<lambda>i. map (\<lambda>j. map (\<lambda>ch. ch ! i ! j) t) [0..<w]) [0..<h]"

text \<open>
  Lines 183 to 190: the target of one image. The resized masks have the shape
  \<open>[Mmax, seg_shape, seg_shape]\<close> unless \<^verbatim>\<open>tf.squeeze\<close> removes an axis of size 1, and
  the scatter accepts the updates only when they have the shape of a channel of \<open>seg\<close>.
\<close>

definition seg_target :: "nat \<Rightarrow> tensor3 \<Rightarrow> tensor3 \<Rightarrow> int list \<Rightarrow> int \<Rightarrow> tf_error + tensor3" where
  "seg_target seg_shape seg masks cls objects =
     (case resize_masks seg_shape masks of
        Inl e \<Rightarrow> Inl e
      | Inr masks' \<Rightarrow>
          (case dims3 seg of (h, w, c) \<Rightarrow>
             if length masks = 1 \<or> seg_shape \<le> 1 \<or> (seg_shape, seg_shape) \<noteq> (h, w)
             then Inl InvalidArgument
             else
               (let obj_mask = slice_to masks' objects;
                    obj_cls = slice_to cls objects;
                    seg_gt = transpose_201 c (map (map (map (\<lambda>_. Fin 0))) seg)
                in case tensor_scatter_nd_update seg_gt obj_cls obj_mask of
                     Inl e \<Rightarrow> Inl e
                   | Inr seg_gt' \<Rightarrow> Inr (transpose_120 h w seg_gt'))))"

definition loss_seg_image :: "nat \<Rightarrow> tensor3 \<Rightarrow> tensor3 \<Rightarrow> int list \<Rightarrow> int \<Rightarrow> tf_error + tf_float" where
  "loss_seg_image seg_shape seg masks cls objects =
     (case seg_target seg_shape seg masks cls objects of
        Inl e \<Rightarrow> Inl e
      | Inr seg_gt \<Rightarrow>
          (case sigmoid_cross_entropy_with_logits3 seg_gt seg of
             Inl e \<Rightarrow> Inl e
           | Inr s \<Rightarrow> Inr (reduce_sum (concat (concat s)))))"

fun loss_seg_loop :: "nat \<Rightarrow> tensor4 \<Rightarrow> tensor4 \<Rightarrow> int list list \<Rightarrow> int list \<Rightarrow> nat list
    \<Rightarrow> tf_float \<Rightarrow> tf_error + tf_float" where
  "loss_seg_loop seg_shape pred_seg mask_gt classes num_obj [] loss_seg = Inr loss_seg"
| "loss_seg_loop seg_shape pred_seg mask_gt classes num_obj (idx # idxs) loss_seg =
     (case tf_index pred_seg idx of Inl e \<Rightarrow> Inl e | Inr seg \<Rightarrow>
     (case tf_index mask_gt idx of Inl e \<Rightarrow> Inl e | Inr masks \<Rightarrow>
     (case tf_index classes idx of Inl e \<Rightarrow> Inl e | Inr cls \<Rightarrow>
     (case tf_index num_obj idx of Inl e \<Rightarrow> Inl e | Inr objects \<Rightarrow>
     (case loss_seg_image seg_shape seg masks cls objects of
        Inl e \<Rightarrow> Inl e
      | Inr l \<Rightarrow> loss_seg_loop seg_shape pred_seg mask_gt classes num_obj idxs (loss_seg + l))))))"

definition loss_semantic_segmentation :: "tensor4 \<Rightarrow> tensor4 \<Rightarrow> int list list \<Rightarrow> int list
    \<Rightarrow> tf_error + tf_float" where
  "loss_semantic_segmentation pred_seg mask_gt classes num_obj =
     (let num_batch = length mask_gt;
          seg_shape = (case pred_seg of [] \<Rightarrow> 0 | seg # _ \<Rightarrow> length seg)
      in case loss_seg_loop seg_shape pred_seg mask_gt classes num_obj [0..<num_batch] (Fin 0) of
           Inl e \<Rightarrow> Inl e
         | Inr loss_seg \<Rightarrow>
             Inr (loss_seg / (Fin (real seg_shape) * Fin (real seg_shape))
                  / Fin (real num_batch)))"

section \<open>The total loss\<close>

record y_pred =
  pred_cls :: tensor3
  pred_offset :: tensor3
  pred_mask_coef :: tensor3
  proto_out :: tensor4
  seg :: tensor4

record y_true =
  cls_targets :: "int list list"
  box_targets :: tensor3
  positiveness :: "int list list"
  bbox_for_norm :: tensor3
  mask_target :: tensor4
  max_id_for_anchors :: "int list list"
  classes :: "int list list"
  num_obj :: "int list"

definition YOLACTLoss_call :: "utils \<Rightarrow> YOLACTLoss \<Rightarrow> y_true \<Rightarrow> y_pred
    \<Rightarrow> tf_error + (tf_float \<times> tf_float \<times> tf_float \<times> tf_float \<times> tf_float)" where
  "YOLACTLoss_call u self yt yp =
     (case loss_location (pred_offset yp) (box_targets yt) (positiveness yt) of
        Inl e \<Rightarrow> Inl e
      | Inr loc_loss \<Rightarrow>
     (case loss_class self (pred_cls yp) (cls_targets yt) (positiveness yt) of
        Inl e \<Rightarrow> Inl e
      | Inr conf_loss \<Rightarrow>
     (case loss_mask u (proto_out yp) (pred_mask_coef yp) (bbox_for_norm yt) (mask_target yt)
             (positiveness yt) (max_id_for_anchors yt) (max_masks_for_train self) of
        Inl e \<Rightarrow> Inl e
      | Inr mask_loss \<Rightarrow>
     (case loss_semantic_segmentation (seg yp) (mask_target yt) (classes yt) (num_obj yt) of
        Inl e \<Rightarrow> Inl e
      | Inr seg_loss \<Rightarrow>
          (let total_loss = box_prediction_loss_weight self * loc_loss
                            + classification_loss_weight self * conf_loss
                            + mask_loss_weight self * mask_loss
                            + segmentation_loss_weight self * seg_loss
           in Inr (loc_loss, conf_loss, mask_loss, seg_loss, total_loss))))))"

section \<open>Examples\<close>

text \<open>
  Modelled from the spec: \<^verbatim>\<open>utils.map_to_center_form\<close> and \<^verbatim>\<open>utils.crop\<close> are missing
  from the sources. The spec gives their contracts, for one box and one map:
  \<open>toCenterForm(box_corner) \<rightarrow> (cx, cy, w, h)\<close>, and \<open>cropToBox\<close> returns the map with zeros
  outside the box. The spec leaves open which pixels count as inside the box: the rule
  is the parameter \<open>inside\<close>.
\<close>

definition to_center_form :: "tensor1 \<Rightarrow> tensor1" where
  "to_center_form box =
     (case box of
        [x1, y1, x2, y2] \<Rightarrow> [(x1 + x2) / Fin 2, (y1 + y2) / Fin 2, x2 - x1, y2 - y1]
      | _ \<Rightarrow> [])"

definition crop_to_box :: "(tensor1 \<Rightarrow> nat \<times> nat \<Rightarrow> nat \<times> nat \<Rightarrow> bool) \<Rightarrow> tensor2 \<Rightarrow> tensor1
    \<Rightarrow> tensor2" where
  "crop_to_box inside loss_map box =
     map (\<lambda>i. map (\<lambda>j. if inside box (length loss_map, length (loss_map ! i)) (i, j)
                         then loss_map ! i ! j else Fin 0) [0..<length (loss_map ! i)])
       [0..<length loss_map]"

definition spec_utils :: "(tensor1 \<Rightarrow> nat \<times> nat \<Rightarrow> nat \<times> nat \<Rightarrow> bool) \<Rightarrow> utils" where
  "spec_utils inside =
     \<lparr>map_to_center_form = map to_center_form,
      crop = (\<lambda>s bbox. map2 (crop_to_box inside) s bbox)\<rparr>"

text \<open>One rule for the examples: the pixels between the scaled corners, both ends included.\<close>

definition inside_closed :: "tensor1 \<Rightarrow> nat \<times> nat \<Rightarrow> nat \<times> nat \<Rightarrow> bool" where
  "inside_closed box d p =
     (case box of
        [x1, y1, x2, y2] \<Rightarrow>
          fle (x1 * Fin (real (snd d))) (Fin (real (snd p)))
          \<and> fle (Fin (real (snd p))) (x2 * Fin (real (snd d)))
          \<and> fle (y1 * Fin (real (fst d))) (Fin (real (fst p)))
          \<and> fle (Fin (real (fst p))) (y2 * Fin (real (fst d)))
      | _ \<Rightarrow> False)"

text \<open>
  A batch of one image with one anchor, which is positive and matched to object 0; two
  object slots, of which the first is used; masks and prototypes of one pixel, a
  segmentation of 2 by 2 pixels and one class.
\<close>

definition ex_pred :: y_pred where
  "ex_pred =
     \<lparr>pred_cls = [[[Fin 1, Fin 1]]],
      pred_offset = [[[Fin (1 / 2), Fin (1 / 2), Fin (1 / 2), Fin (1 / 2)]]],
      pred_mask_coef = [[[Fin 0]]],
      proto_out = [[[[Fin 0]]]],
      seg = [[[[Fin 0], [Fin 0]], [[Fin 0], [Fin 0]]]]\<rparr>"

definition ex_true :: y_true where
  "ex_true =
     \<lparr>cls_targets = [[1]],
      box_targets = [[[Fin 0, Fin 0, Fin 0, Fin 0]]],
      positiveness = [[1]],
      bbox_for_norm = [[[Fin 0, Fin 0, Fin 1, Fin 1], [Fin 0, Fin 0, Fin 1, Fin 1]]],
      mask_target = [[[[Fin 1]], [[Fin 0]]]],
      max_id_for_anchors = [[0]],
      classes = [[0, 0]],
      num_obj = [1]\<rparr>"

text \<open>The batch of the first example with its only anchor negative.\<close>

definition ex0_true :: y_true where
  "ex0_true = ex_true\<lparr>cls_targets := [[0]], positiveness := [[0]]\<rparr>"

section \<open>Reference formulas\<close>

text \<open>
  The smooth L1 function with the transition at 1, on the reals, and the entries of a
  per-anchor tensor \<open>[B, A, ...]\<close> at the positive anchors, image after image.
  \<open>same_anchors\<close> says that a tensor has the images and the anchors of the positiveness.
\<close>

definition smooth_l1 :: "real \<Rightarrow> real" where
  "smooth_l1 d = (if \<bar>d\<bar> \<le> 1 then d * d / 2 else \<bar>d\<bar> - 1 / 2)"

definition positive_anchors :: "'a list list \<Rightarrow> int list list \<Rightarrow> 'a list" where
  "positive_anchors t pos =
     concat (map2 (\<lambda>row prow. map fst (filter (\<lambda>xp. snd xp = 1) (zip row prow))) t pos)"

definition same_anchors :: "'a list list \<Rightarrow> 'b list list \<Rightarrow> bool" where
  "same_anchors t pos =
     (length t = length pos \<and> list_all2 (\<lambda>row prow. length row = length prow) t pos)"

text \<open>
  The score of a negative anchor as the comments of \<^verbatim>\<open>_loss_class\<close> describe it: minus
  the logarithm of the softmax probability of class 0.
\<close>

definition minus_log_background_probability :: "real list \<Rightarrow> real" where
  "minus_log_background_probability logits
   = - ln (exp (logits ! 0) / sum_list (map exp logits))"

text \<open>
  A tensor of the shape \<open>[h, w, c]\<close>, and the sum of the sigmoid cross entropy of the
  logits of an image against a target of the same shape.
\<close>

definition shape3 :: "'a list list list \<Rightarrow> nat \<times> nat \<times> nat \<Rightarrow> bool" where
  "shape3 t d =
     (case d of (h, w, c) \<Rightarrow>
        length t = h \<and> list_all (\<lambda>row. length row = w \<and> list_all (\<lambda>v. length v = c) row) t)"

definition image_bce_sum :: "tensor3 \<Rightarrow> tensor3 \<Rightarrow> tf_float" where
  "image_bce_sum target logits =
     sum_list (concat (concat (map2 (map2 (map2 sigmoid_ce)) target logits)))"

text \<open>
  The masks of an image as the spec describes them, binary masks of \<open>Hm \<times> Wm\<close> pixels:
  a mask is a non-empty rectangle of values between 0 and 1. The binarization of the spec,
  a threshold at \<open>1 / 2\<close>, and the mask of an object at the resolution of the segmentation:
  resized bilinearly, then thresholded.
\<close>

definition unit_interval :: "tf_float \<Rightarrow> bool" where
  "unit_interval v = (case v of Fin a \<Rightarrow> 0 \<le> a \<and> a \<le> 1 | _ \<Rightarrow> False)"

definition mask_ok :: "tensor2 \<Rightarrow> bool" where
  "mask_ok m =
     (m \<noteq> [] \<and> hd m \<noteq> []
      \<and> list_all (\<lambda>row. length row = length (hd m) \<and> list_all unit_interval row) m)"

definition threshold_half :: "tf_float \<Rightarrow> tf_float" where
  "threshold_half v = (if fle (Fin (1 / 2)) v then Fin 1 else Fin 0)"

definition resized_binary_mask :: "nat \<Rightarrow> tensor2 \<Rightarrow> tensor2" where
  "resized_binary_mask Hs m =
     (case resize_bilinear Hs Hs m of Inl e \<Rightarrow> [] | Inr r \<Rightarrow> map (map threshold_half) r)"

text \<open>
  The target map in the words of the spec: a map \<open>[Hs, Hs, C]\<close> that is 0 in the channel
  of a class of none of the first \<open>n\<close> objects, and that holds in the channel of any other
  class the resized binary mask of the last of the first \<open>n\<close> objects of that class.
  \<open>seg_image_ok\<close> collects what the code needs in order to build it.
\<close>

definition target_map :: "nat \<Rightarrow> nat \<Rightarrow> tensor3 \<Rightarrow> int list \<Rightarrow> nat \<Rightarrow> tensor3" where
  "target_map Hs C masks cls n =
     map (\<lambda>i. map (\<lambda>j. map (\<lambda>c.
       case map_of (rev (zip (take n cls) (take n masks))) (int c) of
         None \<Rightarrow> Fin 0
       | Some m \<Rightarrow> resized_binary_mask Hs m ! i ! j) [0..<C]) [0..<Hs]) [0..<Hs]"

definition seg_image_ok :: "nat \<Rightarrow> nat \<Rightarrow> tensor3 \<Rightarrow> tensor3 \<Rightarrow> int list \<Rightarrow> int \<Rightarrow> bool" where
  "seg_image_ok Hs C sg masks cls objects =
     (shape3 sg (Hs, Hs, C) \<and> 2 \<le> Hs \<and> length masks \<noteq> 1 \<and> list_all mask_ok masks
      \<and> length cls = length masks \<and> 0 \<le> objects
      \<and> list_all (\<lambda>c. 0 \<le> c \<and> c < int C) (take (nat objects) cls))"

text \<open>
  A permutation of the anchors of every image, as the list of the old positions in the new
  order, and its application to a per-anchor tensor \<open>[B, A, ...]\<close>. \<open>anchors_with v\<close> are
  the entries at the anchors of positiveness \<open>v\<close>, image after image.
\<close>

definition permute :: "nat list \<Rightarrow> 'a list \<Rightarrow> 'a list" where
  "permute p xs = map (nth xs) p"

definition permute_anchors :: "nat list list \<Rightarrow> 'a list list \<Rightarrow> 'a list list" where
  "permute_anchors ps t = map2 permute ps t"

definition anchor_permutations :: "nat list list \<Rightarrow> 'a list list \<Rightarrow> bool" where
  "anchor_permutations ps t = list_all2 (\<lambda>p row. mset p = mset [0..<length row]) ps t"

definition select_eq :: "int \<Rightarrow> 'a list \<Rightarrow> int list \<Rightarrow> 'a list" where
  "select_eq v xs ps = map fst (filter (\<lambda>xp. snd xp = v) (zip xs ps))"

definition anchors_with :: "int \<Rightarrow> 'a list list \<Rightarrow> int list list \<Rightarrow> 'a list" where
  "anchors_with v t pos = concat (map2 (select_eq v) t pos)"

definition pair_anchors :: "'a list list \<Rightarrow> 'b list list \<Rightarrow> ('a \<times> 'b) list list" where
  "pair_anchors t1 t2 = map2 zip t1 t2"

text \<open>
  The place of a value other than \<open>NaN\<close> in the descending order, as a key: the smaller key
  comes first. (The key of \<open>NaN\<close> is never used: the lemmas that sort by this key exclude
  \<open>NaN\<close>.)
\<close>

fun rank_descending :: "tf_float \<Rightarrow> nat \<times> real" where
  "rank_descending PInf = (0, 0)"
| "rank_descending (Fin a) = (1, - a)"
| "rank_descending NInf = (2, 0)"
| "rank_descending NaN = (3, 0)"

text \<open>
  The classification loss in terms of the anchors: the score by which the code sorts a
  negative anchor, the cross entropy of an anchor with its class target, and the negatives
  that enter the loss, for scores without \<open>NaN\<close>.
\<close>

definition hard_negative_score :: "tensor1 \<Rightarrow> tf_float" where
  "hard_negative_score row = Fin (- 1) * flog (row ! 0)"

definition anchor_cross_entropy :: "nat \<Rightarrow> tensor1 \<times> int \<Rightarrow> tf_float" where
  "anchor_cross_entropy nc x = softmax_cross_entropy_with_logits (one_hot nc (snd x)) (fst x)"

definition hard_negatives :: "YOLACTLoss \<Rightarrow> nat \<Rightarrow> (tensor1 \<times> int) list \<Rightarrow> (tensor1 \<times> int) list" where
  "hard_negatives self num_pos negs =
     slice_to (sort_key (\<lambda>x. rank_descending (hard_negative_score (fst x))) negs)
       (signed_take_bit 31 (int num_pos * neg_pos_ratio self))"

text \<open>
  The mask loss in terms of the anchors, for \<open>utils\<close> functions that treat every box and
  every cropped map on its own.
\<close>

definition anchorwise_utils :: "(tensor1 \<Rightarrow> tensor1) \<Rightarrow> (tensor2 \<Rightarrow> tensor1 \<Rightarrow> tensor2) \<Rightarrow> utils" where
  "anchorwise_utils center1 crop1 =
     \<lparr>map_to_center_form = map center1, crop = (\<lambda>s bbox. map2 crop1 s bbox)\<rparr>"

definition anchor_pred_mask :: "tensor3 \<Rightarrow> tensor1 \<Rightarrow> tensor2" where
  "anchor_pred_mask proto coef = map (map (\<lambda>v. tf_dot v coef)) proto"

definition anchor_area :: "tensor1 \<Rightarrow> tf_float" where
  "anchor_area c = c ! (length c - 1) * c ! (length c - 2)"

definition anchor_mask_ok :: "(tensor1 \<Rightarrow> tensor1) \<Rightarrow> tensor3 \<Rightarrow> tensor3 \<Rightarrow> tensor2
    \<Rightarrow> tensor1 \<times> int \<Rightarrow> bool" where
  "anchor_mask_ok center1 proto mask_gt bbox_norm x =
     (list_all (\<lambda>row. list_all (\<lambda>v. length v = length (fst x)) row) proto
      \<and> 0 \<le> snd x \<and> nat (snd x) < length mask_gt \<and> nat (snd x) < length bbox_norm
      \<and> 2 \<le> length (center1 (bbox_norm ! nat (snd x)))
      \<and> (\<exists>s. sigmoid_cross_entropy_with_logits2 (mask_gt ! nat (snd x))
                 (anchor_pred_mask proto (fst x)) = Inr s))"

definition anchor_mask_value :: "(tensor1 \<Rightarrow> tensor1) \<Rightarrow> (tensor2 \<Rightarrow> tensor1 \<Rightarrow> tensor2) \<Rightarrow> tensor3
    \<Rightarrow> tensor3 \<Rightarrow> tensor2 \<Rightarrow> tensor1 \<times> int \<Rightarrow> tf_float" where
  "anchor_mask_value center1 crop1 proto mask_gt bbox_norm x =
     reduce_sum (concat (crop1
        (projr (sigmoid_cross_entropy_with_logits2 (mask_gt ! nat (snd x))
                  (anchor_pred_mask proto (fst x))))
        (bbox_norm ! nat (snd x))))
     / anchor_area (center1 (bbox_norm ! nat (snd x)))"

definition anchor_mask_loss :: "(tensor1 \<Rightarrow> tensor1) \<Rightarrow> (tensor2 \<Rightarrow> tensor1 \<Rightarrow> tensor2) \<Rightarrow> tensor3
    \<Rightarrow> tensor3 \<Rightarrow> tensor2 \<Rightarrow> tensor1 \<times> int \<Rightarrow> tf_error + tf_float" where
  "anchor_mask_loss center1 crop1 proto mask_gt bbox_norm x =
     (if anchor_mask_ok center1 proto mask_gt bbox_norm x
      then Inr (anchor_mask_value center1 crop1 proto mask_gt bbox_norm x)
      else Inl InvalidArgument)"

text \<open>The permutation applied to all the per-anchor tensors of a batch, and examples.\<close>

definition permute_y_true :: "nat list list \<Rightarrow> y_true \<Rightarrow> y_true" where
  "permute_y_true ps yt =
     yt\<lparr>cls_targets := permute_anchors ps (cls_targets yt),
        box_targets := permute_anchors ps (box_targets yt),
        positiveness := permute_anchors ps (positiveness yt),
        max_id_for_anchors := permute_anchors ps (max_id_for_anchors yt)\<rparr>"

definition permute_y_pred :: "nat list list \<Rightarrow> y_pred \<Rightarrow> y_pred" where
  "permute_y_pred ps yp =
     yp\<lparr>pred_cls := permute_anchors ps (pred_cls yp),
        pred_offset := permute_anchors ps (pred_offset yp),
        pred_mask_coef := permute_anchors ps (pred_mask_coef yp)\<rparr>"

definition anchors_agree :: "y_true \<Rightarrow> y_pred \<Rightarrow> bool" where
  "anchors_agree yt yp =
     (same_anchors (cls_targets yt) (positiveness yt)
      \<and> same_anchors (box_targets yt) (positiveness yt)
      \<and> same_anchors (max_id_for_anchors yt) (positiveness yt)
      \<and> same_anchors (pred_cls yp) (positiveness yt)
      \<and> same_anchors (pred_offset yp) (positiveness yt)
      \<and> same_anchors (pred_mask_coef yp) (positiveness yt))"

definition ex3_pred :: y_pred where
  "ex3_pred =
     ex_pred\<lparr>pred_cls := [[[Fin 0, Fin 0], [Fin 1, Fin 1], [Fin 2, Fin 1]]],
       pred_offset := [[[Fin (1 / 2), Fin (1 / 2), Fin (1 / 2), Fin (1 / 2)],
                        [Fin 0, Fin 0, Fin 0, Fin 0], [Fin 0, Fin 0, Fin 0, Fin 0]]],
       pred_mask_coef := [[[Fin 0], [Fin 0], [Fin 0]]]\<rparr>"

definition ex3_true :: y_true where
  "ex3_true =
     ex_true\<lparr>cls_targets := [[1, 0, 0]],
       box_targets := [[[Fin 0, Fin 0, Fin 0, Fin 0], [Fin 0, Fin 0, Fin 0, Fin 0],
                        [Fin 0, Fin 0, Fin 0, Fin 0]]],
       positiveness := [[1, 0, 0]],
       max_id_for_anchors := [[0, 0, 0]]\<rparr>"

definition ex5_cls :: "tf_float list list list" where
  "ex5_cls = [[[Fin 0, Fin 0], [Fin 1, Fin 1], [Fin 1, Fin 1], [Fin 1, Fin 1], [Fin 1, Fin 0]]]"

section \<open>Evaluation of the examples\<close>

lemmas tf_ops_defs =
  tf_where_eq2_def tf_where_eq_def tf_gather_nd_def tf_gather_def tf_gather_int_def tf_index_def
  tf_broadcast_def reduce_mean_def reduce_sum_def minus_tf_float_def zip_with_err_def
  slice_to_def tf_reshape_rows_def chunks.simps

lemmas loc_defs = loss_location_def huber_def huber_elem_def

lemmas cls_defs =
  loss_class_def neg_indices_for_loss_def neg_minus_log_class0_def tf_argsort_descending_def
  insertion_sort_def insertion_sort_step_def feq_def
  one_hot_def softmax_cross_entropy_with_logits_def

lemmas sigmoid_defs =
  sigmoid_cross_entropy_with_logits3_def sigmoid_cross_entropy_with_logits2_def
  sigmoid_cross_entropy_with_logits1_def sigmoid_ce_def

lemmas mask_defs =
  loss_mask_def loss_mask_image_def matmul_transpose_b_def transpose_201_def box_area_def
  tf_dot_def

lemmas seg_defs =
  loss_semantic_segmentation_def loss_seg_image_def seg_target_def resize_masks_def
  resize_bilinear_def interpolation_weights_def binarize_def tf_cast_int64_def dims3_def
  transpose_120_def tensor_scatter_nd_update_def

lemmas utils_defs = spec_utils_def to_center_form_def crop_to_box_def inside_closed_def

lemma ex_loss_location:
  "loss_location (pred_offset ex_pred) (box_targets ex_true) (positiveness ex_true)
   = Inr (Fin (1 / 8))"
  by (simp add: ex_pred_def ex_true_def loc_defs tf_ops_defs)

lemma ex_loss_class:
  "loss_class (YOLACTLoss_init 2) (pred_cls ex_pred) (cls_targets ex_true) (positiveness ex_true)
   = Inr (Fin (ln 2))"
  by (simp add: ex_pred_def ex_true_def YOLACTLoss_init_def cls_defs tf_ops_defs upt_conv_Cons
      ln_mult)

lemma ex_loss_mask:
  "loss_mask (spec_utils inside_closed) (proto_out ex_pred) (pred_mask_coef ex_pred)
     (bbox_for_norm ex_true) (mask_target ex_true) (positiveness ex_true)
     (max_id_for_anchors ex_true) 100 = Inr (Fin (ln 2))"
  by (simp add: ex_pred_def ex_true_def mask_defs sigmoid_defs utils_defs tf_ops_defs)

lemma ex_loss_semantic_segmentation:
  "loss_semantic_segmentation (seg ex_pred) (mask_target ex_true) (classes ex_true)
     (num_obj ex_true) = Inr (Fin (ln 2))"
  by (simp add: ex_pred_def ex_true_def seg_defs transpose_201_def sigmoid_defs tf_ops_defs)

section \<open>The total loss is the weighted sum\<close>

text \<open>
  Claim C1. The call returns a tuple exactly when the four component losses return, and
  the tuple is then the four losses followed by their weighted sum, with the weights of
  the configuration; the default weights are 1.5 for the boxes, 1 for the classification,
  6.125 for the masks and 1 for the segmentation.
\<close>

theorem YOLACTLoss_call_total:
  "(YOLACTLoss_call u self yt yp = Inr r \<longleftrightarrow>
      (\<exists>loc cls mask sg.
         loss_location (pred_offset yp) (box_targets yt) (positiveness yt) = Inr loc
       \<and> loss_class self (pred_cls yp) (cls_targets yt) (positiveness yt) = Inr cls
       \<and> loss_mask u (proto_out yp) (pred_mask_coef yp) (bbox_for_norm yt) (mask_target yt)
            (positiveness yt) (max_id_for_anchors yt) (max_masks_for_train self) = Inr mask
       \<and> loss_semantic_segmentation (seg yp) (mask_target yt) (classes yt) (num_obj yt) = Inr sg
       \<and> r = (loc, cls, mask, sg,
               box_prediction_loss_weight self * loc + classification_loss_weight self * cls
               + mask_loss_weight self * mask + segmentation_loss_weight self * sg)))
   \<and> box_prediction_loss_weight (YOLACTLoss_init n) = Fin (3 / 2)
   \<and> classification_loss_weight (YOLACTLoss_init n) = Fin 1
   \<and> mask_loss_weight (YOLACTLoss_init n) = Fin (6 + 1 / 8)
   \<and> segmentation_loss_weight (YOLACTLoss_init n) = Fin 1"
  by (auto simp add: YOLACTLoss_call_def YOLACTLoss_init_def split: sum.splits)

theorem YOLACTLoss_call_total_witness:
  "YOLACTLoss_call (spec_utils inside_closed) (YOLACTLoss_init 2) ex_true ex_pred
   = Inr (Fin (1 / 8), Fin (ln 2), Fin (ln 2), Fin (ln 2),
          Fin (3 / 2) * Fin (1 / 8) + Fin 1 * Fin (ln 2) + Fin (49 / 8) * Fin (ln 2)
          + Fin 1 * Fin (ln 2))"
proof -
  have m: "max_masks_for_train (YOLACTLoss_init 2) = 100"
    by (simp add: YOLACTLoss_init_def)
  have w: "box_prediction_loss_weight (YOLACTLoss_init 2) = Fin (3 / 2)"
    "classification_loss_weight (YOLACTLoss_init 2) = Fin 1"
    "mask_loss_weight (YOLACTLoss_init 2) = Fin (49 / 8)"
    "segmentation_loss_weight (YOLACTLoss_init 2) = Fin 1"
    by (simp_all add: YOLACTLoss_init_def)
  show ?thesis
    using YOLACTLoss_call_total [of "spec_utils inside_closed" "YOLACTLoss_init 2" ex_true ex_pred
        "(Fin (1 / 8), Fin (ln 2), Fin (ln 2), Fin (ln 2),
          Fin (3 / 2) * Fin (1 / 8) + Fin 1 * Fin (ln 2) + Fin (49 / 8) * Fin (ln 2)
          + Fin 1 * Fin (ln 2))" 2]
      ex_loss_location ex_loss_class ex_loss_mask ex_loss_semantic_segmentation
    by (simp only: m w) simp
qed

section \<open>The cap on the masks is not applied\<close>

text \<open>
  Claim C5. The mask loss does not depend on \<^verbatim>\<open>max_masks_for_train\<close>: two calls that
  differ in this value only return the same mask loss, and the same five numbers.
\<close>

theorem loss_mask_ignores_max_masks_for_train:
  "loss_mask u po mc bb gm ps mi m1 = loss_mask u po mc bb gm ps mi m2
   \<and> YOLACTLoss_call u (self\<lparr>max_masks_for_train := m1\<rparr>) yt yp
     = YOLACTLoss_call u (self\<lparr>max_masks_for_train := m2\<rparr>) yt yp"
  by (simp add: YOLACTLoss_call_def loss_mask_def loss_class_def neg_indices_for_loss_def
      cong: sum.case_cong)

section \<open>Lists, sums and errors\<close>

lemma sequence_err_map_Inr: "sequence_err (map (\<lambda>x. Inr (f x)) xs) = Inr (map f xs)"
  by (induction xs) simp_all

lemma foldl_plus_tf: "foldl (+) (a :: tf_float) xs = a + sum_list xs"
  by (induction xs arbitrary: a) (simp_all add: add.assoc)

lemma reduce_sum_sum_list: "reduce_sum xs = sum_list xs"
  by (simp add: reduce_sum_def foldl_plus_tf zero_tf_float_def [symmetric])

lemma sum_list_map_Fin: "sum_list (map Fin xs) = Fin (sum_list xs)"
  by (induction xs) (simp_all add: zero_tf_float_def)

lemma nth_filter_upt:
  "length xs = length ps \<Longrightarrow>
   map (nth xs) (filter (\<lambda>i. ps ! i = v) [0..<length ps])
   = map fst (filter (\<lambda>xp. snd xp = v) (zip xs ps))"
proof (induction xs ps rule: list_induct2)
  case Nil
  then show ?case by simp
next
  case (Cons x xs p ps)
  have "[0..<length (p # ps)] = 0 # map Suc [0..<length ps]"
    by (simp add: upt_conv_Cons map_Suc_upt del: upt_Suc)
  then show ?case using Cons.IH
    by (simp add: filter_map comp_def del: upt_Suc)
qed

lemma tf_gather_nd_where:
  assumes "same_anchors t pos"
  shows "tf_gather_nd t (tf_where_eq2 pos 1) = Inr (positive_anchors t pos)"
proof -
  have len: "length t = length pos" and rows: "\<And>b. b < length pos \<Longrightarrow> length (t ! b) = length (pos ! b)"
    using assms by (auto simp: same_anchors_def list_all2_conv_all_nth)
  have "map (\<lambda>(b, a). case tf_index t b of Inl e \<Rightarrow> Inl e | Inr row \<Rightarrow> tf_index row a) (tf_where_eq2 pos 1)
        = map Inr (positive_anchors t pos)"
  proof -
    have "positive_anchors t pos = concat (map (\<lambda>b. map (nth (t ! b)) (tf_where_eq (pos ! b) 1)) [0..<length pos])"
      unfolding positive_anchors_def tf_where_eq_def
      using len rows
      by (intro arg_cong [where f = concat] nth_equalityI) (simp_all add: nth_filter_upt)
    moreover have "map (\<lambda>(b, a). case tf_index t b of Inl e \<Rightarrow> Inl e | Inr row \<Rightarrow> tf_index row a) (tf_where_eq2 pos 1)
       = concat (map (\<lambda>b. map (\<lambda>a. Inr (t ! b ! a)) (tf_where_eq (pos ! b) 1)) [0..<length pos])"
      unfolding tf_where_eq2_def map_concat
      using len rows
      by (intro arg_cong [where f = concat]) (auto simp add: tf_index_def tf_where_eq_def)
    ultimately show ?thesis
      by (simp add: map_concat comp_def)
  qed
  then show ?thesis
    unfolding tf_gather_nd_def using sequence_err_map_Inr [of "\<lambda>x. x"] by simp
qed


lemma huber_elem_Fin: "huber_elem (Fin 1) (Fin y) (Fin x) = Fin (smooth_l1 (x - y))"
  by (simp add: huber_elem_def smooth_l1_def minus_tf_float_def)

lemma huber_Fin:
  assumes "length g = length p" and "p \<noteq> []"
  shows "huber (Fin 1) (map Fin g) (map Fin p)
         = Inr (Fin ((\<Sum>(x, y) \<leftarrow> zip p g. smooth_l1 (x - y)) / real (length p)))"
proof -
  have "map2 (\<lambda>p t. huber_elem (Fin 1) t p) (map Fin p) (map Fin g)
        = map Fin (map (\<lambda>(x, y). smooth_l1 (x - y)) (zip p g))"
    by (simp add: zip_map_map huber_elem_Fin split_def comp_def)
  then have "tf_broadcast (\<lambda>p t. huber_elem (Fin 1) t p) (map Fin p) (map Fin g)
        = Inr (map Fin (map (\<lambda>(x, y). smooth_l1 (x - y)) (zip p g)))"
    using assms by (simp add: tf_broadcast_def)
  then show ?thesis
    using assms
    by (simp add: huber_def reduce_mean_def reduce_sum_sum_list sum_list_map_Fin
        del: map_map)
qed

lemma positive_anchors_map:
  "positive_anchors (map (map f) t) pos = map f (positive_anchors t pos)"
proof -
  have "\<And>row prow. map fst (filter (\<lambda>xp. snd xp = 1) (zip (map f row) prow))
      = map f (map fst (filter (\<lambda>xp. snd xp = (1::int)) (zip row prow)))"
    by (simp add: zip_map1 filter_map comp_def split_def)
  then show ?thesis
    by (simp add: positive_anchors_def zip_map1 map_concat comp_def split_def)
qed

lemma same_anchors_map: "same_anchors (map (map f) t) pos = same_anchors t pos"
  by (simp add: same_anchors_def list_all2_map1)

lemma sequence_err_length: "sequence_err ms = Inr xs \<Longrightarrow> length xs = length ms"
  by (induction ms arbitrary: xs) (auto split: sum.splits)

lemma length_positive_anchors:
  "same_anchors t pos \<Longrightarrow> length (positive_anchors t pos) = length (tf_where_eq2 pos 1)"
  using tf_gather_nd_where [of t pos] sequence_err_length
  unfolding tf_gather_nd_def by fastforce

lemma set_positive_anchors: "set (positive_anchors t pos) \<subseteq> \<Union> (set ` set t)"
  by (auto simp: positive_anchors_def dest!: set_zip_leftD)


lemma huber_rows:
  "length gg = length pp \<Longrightarrow> \<forall>p\<in>set pp. length p = 4 \<Longrightarrow> \<forall>g\<in>set gg. length g = 4 \<Longrightarrow>
   sequence_err (map2 (huber (Fin 1)) (map (map Fin) gg) (map (map Fin) pp))
   = Inr (map (\<lambda>(p, g). Fin ((\<Sum>(x, y) \<leftarrow> zip p g. smooth_l1 (x - y)) / 4)) (zip pp gg))"
proof (induction gg pp rule: list_induct2)
  case Nil
  then show ?case by simp
next
  case (Cons g gg p pp)
  have "huber (Fin 1) (map Fin g) (map Fin p)
        = Inr (Fin ((\<Sum>(x, y) \<leftarrow> zip p g. smooth_l1 (x - y)) / 4))"
  proof -
    have "length g = length p" "p \<noteq> []"
      using Cons.prems by auto
    then show ?thesis
      using huber_Fin [of g p] Cons.prems by simp
  qed
  then show ?case
    using Cons by simp
qed

lemma loss_location_value:
  assumes po: "same_anchors po pos" and gt: "same_anchors gt pos"
    and po4: "\<forall>row\<in>set po. \<forall>v\<in>set row. length v = 4"
    and gt4: "\<forall>row\<in>set gt. \<forall>v\<in>set row. length v = 4"
    and P: "0 < length (positive_anchors po pos)"
  shows "loss_location (map (map (map Fin)) po) (map (map (map Fin)) gt) pos
         = Inr (Fin ((\<Sum>(p, g) \<leftarrow> zip (positive_anchors po pos) (positive_anchors gt pos).
                        (\<Sum>(x, y) \<leftarrow> zip p g. smooth_l1 (x - y)) / 4)
                     / real (length (positive_anchors po pos))))"
proof -
  let ?pp = "positive_anchors po pos" and ?gg = "positive_anchors gt pos"
  have len: "length ?gg = length ?pp"
    using length_positive_anchors [OF gt] length_positive_anchors [OF po] by simp
  have p4: "\<forall>v\<in>set ?pp. length v = 4"
    using set_positive_anchors [of po pos] po4 by auto
  have g4: "\<forall>v\<in>set ?gg. length v = 4"
    using set_positive_anchors [of gt pos] gt4 by auto
  have gp: "tf_gather_nd (map (map (map Fin)) po) (tf_where_eq2 pos 1) = Inr (map (map Fin) ?pp)"
    using tf_gather_nd_where [of "map (map (map Fin)) po" pos] po
    by (simp add: same_anchors_map positive_anchors_map)
  have gg: "tf_gather_nd (map (map (map Fin)) gt) (tf_where_eq2 pos 1) = Inr (map (map Fin) ?gg)"
    using tf_gather_nd_where [of "map (map (map Fin)) gt" pos] gt
    by (simp add: same_anchors_map positive_anchors_map)
  have sm: "sum_list (map (\<lambda>(p, g). Fin ((\<Sum>(x, y) \<leftarrow> zip p g. smooth_l1 (x - y)) / 4)) (zip ?pp ?gg))
        = Fin (\<Sum>(p, g) \<leftarrow> zip ?pp ?gg. (\<Sum>(x, y) \<leftarrow> zip p g. smooth_l1 (x - y)) / 4)"
    using sum_list_map_Fin [of "map (\<lambda>(p, g). (\<Sum>(x, y) \<leftarrow> zip p g. smooth_l1 (x - y)) / 4) (zip ?pp ?gg)"]
    by (simp add: comp_def split_def)
  show ?thesis
    unfolding loss_location_def Let_def gp gg
    using huber_rows [OF len p4 g4] P len
    by (simp add: reduce_sum_sum_list sm)
qed


lemma tf_error_is: "(e :: tf_error) = InvalidArgument"
  by (cases e) simp

lemma div_Fin_0_not_Fin: "x / Fin 0 \<noteq> Fin v"
  by (cases x) auto

lemma tf_where_eq_none: "v \<notin> set t \<Longrightarrow> tf_where_eq t v = []"
  by (auto simp: tf_where_eq_def filter_empty_conv)

lemma tf_where_eq2_none: "\<forall>row\<in>set t. v \<notin> set row \<Longrightarrow> tf_where_eq2 t v = []"
  by (auto simp: tf_where_eq2_def tf_where_eq_none)

lemma loss_location_no_positive:
  "\<forall>row\<in>set pos. 1 \<notin> set row \<Longrightarrow> loss_location po gt pos = Inr NaN"
  by (simp add: loss_location_def tf_where_eq2_none tf_gather_nd_def reduce_sum_def)

lemma loss_class_no_positive:
  assumes "\<forall>row\<in>set pos. 1 \<notin> set row"
  shows "loss_class self pc gc pos \<in> {Inl InvalidArgument, Inr NaN}"
proof -
  have "tf_where_eq (concat pos) 1 = []"
    using assms by (intro tf_where_eq_none) auto
  then show ?thesis
    by (auto simp: loss_class_def Let_def tf_gather_def neg_indices_for_loss_def slice_to_def
        reduce_sum_def tf_error_is split: sum.splits)
qed

lemma loss_mask_image_count:
  "loss_mask_image u pr mc mg bn ps mi = Inr (l, n) \<Longrightarrow> n = length (tf_where_eq ps 1)"
  by (auto simp: loss_mask_image_def Let_def split: sum.splits)

lemma loss_mask_loop_no_positive:
  "\<forall>row\<in>set pos. 1 \<notin> set row \<Longrightarrow>
   loss_mask_loop u po mc bb gm pos mi idxs (l0, n0) = Inr (l, n) \<Longrightarrow> n = n0"
proof (induction idxs arbitrary: l0)
  case Nil
  then show ?case by simp
next
  case (Cons idx idxs)
  then show ?case
    by (auto simp: tf_index_def tf_where_eq_none dest!: loss_mask_image_count
        split: sum.splits if_splits)
qed

lemma loss_mask_no_positive:
  assumes "\<forall>row\<in>set pos. 1 \<notin> set row"
  shows "loss_mask u po mc bb gm pos mi m \<noteq> Inr (Fin v)"
proof (cases "loss_mask_loop u po mc bb gm pos mi [0..<length po] (Fin 0, 0)")
  case (Inl e)
  then show ?thesis by (simp add: loss_mask_def)
next
  case (Inr r)
  obtain l n where r: "r = (l, n)" by (cases r)
  have "n = 0"
    using loss_mask_loop_no_positive [OF assms] Inr r by blast
  then show ?thesis
    using Inr r by (simp add: loss_mask_def div_Fin_0_not_Fin)
qed

section \<open>The localization loss averages the coordinates\<close>

text \<open>
  Claim C4, as amended. For every batch \<open>[B, A, 4]\<close> of finite offsets with at least one
  positive anchor, the localization loss is the smooth L1 function (transition at 1) of
  the differences between the predicted and the target offsets of the positive anchors,
  averaged over the 4 coordinates of each anchor, summed over the positive anchors and
  divided by their number. One positive anchor whose prediction is 0.5 above the target
  in every coordinate has the loss 0.125.
\<close>

theorem loss_location_mean_of_coordinates:
  assumes "same_anchors po pos" and "same_anchors gt pos"
    and "\<forall>row\<in>set po. \<forall>v\<in>set row. length v = 4"
    and "\<forall>row\<in>set gt. \<forall>v\<in>set row. length v = 4"
    and "0 < length (positive_anchors po pos)"
  shows "loss_location (map (map (map Fin)) po) (map (map (map Fin)) gt) pos
         = Inr (Fin ((\<Sum>(p, g) \<leftarrow> zip (positive_anchors po pos) (positive_anchors gt pos).
                        (\<Sum>(x, y) \<leftarrow> zip p g. smooth_l1 (x - y)) / 4)
                     / real (length (positive_anchors po pos))))
       \<and> loss_location [[[Fin (a + 1 / 2), Fin (b + 1 / 2), Fin (c + 1 / 2), Fin (d + 1 / 2)]]]
            [[[Fin a, Fin b, Fin c, Fin d]]] [[1]] = Inr (Fin (1 / 8))"
proof
  show "loss_location (map (map (map Fin)) po) (map (map (map Fin)) gt) pos
         = Inr (Fin ((\<Sum>(p, g) \<leftarrow> zip (positive_anchors po pos) (positive_anchors gt pos).
                        (\<Sum>(x, y) \<leftarrow> zip p g. smooth_l1 (x - y)) / 4)
                     / real (length (positive_anchors po pos))))"
    using assms by (rule loss_location_value)
  show "loss_location [[[Fin (a + 1 / 2), Fin (b + 1 / 2), Fin (c + 1 / 2), Fin (d + 1 / 2)]]]
            [[[Fin a, Fin b, Fin c, Fin d]]] [[1]] = Inr (Fin (1 / 8))"
    by (simp add: loc_defs tf_ops_defs)
qed

theorem loss_location_mean_of_coordinates_witness:
  "loss_location [[[Fin (1 / 2), Fin (1 / 2), Fin (1 / 2), Fin (1 / 2)], [Fin 0, Fin 0, Fin 0, Fin 0]]]
     [[[Fin 0, Fin 0, Fin 0, Fin 0], [Fin 9, Fin 9, Fin 9, Fin 9]]] [[1, 0]] = Inr (Fin (1 / 8))"
  using loss_location_mean_of_coordinates
    [of "[[[1 / 2, 1 / 2, 1 / 2, 1 / 2], [0, 0, 0, 0]]]" "[[1, 0]]"
        "[[[0, 0, 0, 0], [9, 9, 9, 9]]]"]
  by (simp add: same_anchors_def positive_anchors_def smooth_l1_def)

theorem loss_location_sum_of_coordinates_counterexample:
  "loss_location [[[Fin (1 / 2), Fin (1 / 2), Fin (1 / 2), Fin (1 / 2)]]]
     [[[Fin 0, Fin 0, Fin 0, Fin 0]]] [[1]] = Inr (Fin (1 / 8))
   \<and> loss_location [[[Fin (1 / 2), Fin (1 / 2), Fin (1 / 2), Fin (1 / 2)]]]
        [[[Fin 0, Fin 0, Fin 0, Fin 0]]] [[1]] \<noteq> Inr (Fin (4 * (1 / 8)))"
  by (simp add: loc_defs tf_ops_defs)

section \<open>A batch without positive anchors\<close>

text \<open>
  Claim C2 says that the three losses are 0 on a batch without positive anchors. The
  code divides by the number of positive anchors without a guard: on every such batch the
  localization loss is \<open>NaN\<close>, the classification loss is \<open>NaN\<close> unless the call fails, and
  the mask loss is no finite number.
\<close>

theorem no_positive_anchor_losses:
  assumes "\<forall>row\<in>set pos. 1 \<notin> set row"
  shows "loss_location po gt pos = Inr NaN
       \<and> loss_class self pc gc pos \<in> {Inl InvalidArgument, Inr NaN}
       \<and> (\<forall>v. loss_mask u pr mc bb gm pos mi m \<noteq> Inr (Fin v))"
  using loss_location_no_positive [OF assms] loss_class_no_positive [OF assms]
    loss_mask_no_positive [OF assms]
  by blast

theorem no_positive_anchor_losses_witness:
  "loss_location (pred_offset ex_pred) (box_targets ex0_true) (positiveness ex0_true) = Inr NaN
   \<and> loss_class (YOLACTLoss_init 2) (pred_cls ex_pred) (cls_targets ex0_true)
        (positiveness ex0_true) \<noteq> Inr (Fin 0)
   \<and> loss_mask (spec_utils inside_closed) (proto_out ex_pred) (pred_mask_coef ex_pred)
        (bbox_for_norm ex0_true) (mask_target ex0_true) (positiveness ex0_true)
        (max_id_for_anchors ex0_true) 100 \<noteq> Inr (Fin 0)"
proof -
  have "\<forall>row\<in>set (positiveness ex0_true). 1 \<notin> set row"
    by (simp add: ex0_true_def)
  from no_positive_anchor_losses [OF this] show ?thesis
    by (metis insertE singletonD sum.inject(2) sum.distinct(1) tf_float.distinct(5))
qed

text \<open>
  Claim C9 says that the four losses are non-negative numbers on every valid input. On
  the valid batch \<open>ex0_true\<close>, whose only anchor is negative, three of them and the total
  are \<open>NaN\<close>: the division of claim C2.
\<close>

theorem no_positive_anchor_call:
  "YOLACTLoss_call (spec_utils inside_closed) (YOLACTLoss_init 2) ex0_true ex_pred
   = Inr (NaN, NaN, NaN, Fin (ln 2), NaN)"
  by (simp add: YOLACTLoss_call_def YOLACTLoss_init_def ex_pred_def ex_true_def ex0_true_def
      loc_defs cls_defs mask_defs seg_defs sigmoid_defs utils_defs tf_ops_defs)

section \<open>The order of the sorted scores\<close>

lemma unguarded_linear_insert_eq:
  "unguarded_linear_insert cmp val R = takeWhile (cmp val) R @ val # dropWhile (cmp val) R"
  by (induction R) simp_all

lemma mset_takeWhile_dropWhile: "mset (takeWhile P xs) + mset (dropWhile P xs) = mset xs"
  by (induction xs) simp_all

lemma mset_insertion_sort_step: "mset (insertion_sort_step cmp R val) = add_mset val (mset R)"
  by (simp add: insertion_sort_step_def unguarded_linear_insert_eq mset_takeWhile_dropWhile)

lemma mset_foldl_insertion_sort_step:
  "mset (foldl (insertion_sort_step cmp) R xs) = mset R + mset xs"
  by (induction xs arbitrary: R) (simp_all add: mset_insertion_sort_step)

lemma mset_insertion_sort: "mset (insertion_sort cmp xs) = mset xs"
  by (simp add: insertion_sort_def mset_foldl_insertion_sort_step)

lemma mset_sort_runs: "mset (sort_runs input xs) = mset xs"
proof (induction input xs rule: sort_runs.induct)
  case (1 input)
  then show ?case by simp
next
  case (2 input i rest)
  let ?P = "\<lambda>j. feq (input ! i) (input ! j)"
  have "mset (takeWhile ?P rest) + mset (dropWhile ?P rest) = mset rest"
    by (rule mset_takeWhile_dropWhile)
  then show ?case
    using 2 by simp
qed

lemma mset_tf_argsort_descending:
  "mset (tf_argsort_descending values) = mset [0..<length values]"
  by (simp only: tf_argsort_descending_def mset_sort_runs mset_insertion_sort)

lemma set_argsort: "set (tf_argsort_descending scores) = {0..<length scores}"
  using mset_eq_setD [OF mset_tf_argsort_descending [of scores]] by simp

lemma length_argsort: "length (tf_argsort_descending scores) = length scores"
  using mset_eq_length [OF mset_tf_argsort_descending [of scores]] by simp

lemma insertion_sort_step_sorted:
  fixes f :: "'a \<Rightarrow> 'k::linorder"
  assumes c: "\<And>p. p \<in> set R \<Longrightarrow> cmp val p = (f val < f p)"
    and s: "sorted (map f (rev R))"
  shows "insertion_sort_step cmp R val
         = takeWhile (\<lambda>p. f val < f p) R @ val # dropWhile (\<lambda>p. f val < f p) R"
    and "\<forall>p\<in>set (dropWhile (\<lambda>p. f val < f p) R). f p \<le> f val"
proof -
  let ?P = "\<lambda>p. f val < f p"
  have tw: "takeWhile (cmp val) R = takeWhile ?P R"
    by (rule takeWhile_cong) (simp_all add: c)
  have dw: "dropWhile (cmp val) R = dropWhile ?P R"
    by (rule dropWhile_cong) (simp_all add: c)
  have desc: "sorted_wrt (\<lambda>a b. f b \<le> f a) R"
    using s by (simp add: sorted_map sorted_wrt_rev)
  show "\<forall>p\<in>set (dropWhile ?P R). f p \<le> f val"
  proof (cases "dropWhile ?P R")
    case Nil
    show ?thesis
      unfolding Nil by simp
  next
    case (Cons d ds)
    have "\<not> ?P d"
      using hd_dropWhile [of ?P R] Cons by simp
    moreover have "sorted_wrt (\<lambda>a b. f b \<le> f a) (d # ds)"
      using sorted_wrt_dropWhile [OF desc, of ?P] Cons by simp
    ultimately show ?thesis
      using Cons by auto
  qed
  show "insertion_sort_step cmp R val = takeWhile ?P R @ val # dropWhile ?P R"
  proof (cases "R \<noteq> [] \<and> cmp val (last R)")
    case True
    then have l: "f val < f (last R)"
      using c [of "last R"] by auto
    have "sorted_wrt (\<lambda>a b. f b \<le> f a) (butlast R @ [last R])"
      using desc True by simp
    then have "\<forall>p\<in>set (butlast R). f (last R) \<le> f p"
      by (simp add: sorted_wrt_append)
    moreover have "set R = insert (last R) (set (butlast R))"
      using True by (metis append_butlast_last_id list.simps(15) rotate1.simps(2) set_rotate1)
    ultimately have "\<forall>p\<in>set R. ?P p"
      using l by auto
    then have e: "takeWhile ?P R = R" "dropWhile ?P R = []"
      by simp_all
    show ?thesis
      unfolding insertion_sort_step_def e using True by simp
  next
    case False
    then show ?thesis
      by (auto simp: insertion_sort_step_def unguarded_linear_insert_eq tw dw)
  qed
qed


lemma insertion_sort_invariant:
  fixes f :: "'a::linorder \<Rightarrow> 'k::linorder"
  assumes "\<forall>a\<in>set xs. \<forall>b\<in>set xs. cmp a b = (f a < f b)" and "sorted_wrt (<) xs"
  shows "sorted (map f (rev (foldl (insertion_sort_step cmp) [] xs)))
       \<and> (\<forall>k. filter (\<lambda>x. f k = f x) (rev (foldl (insertion_sort_step cmp) [] xs))
              = filter (\<lambda>x. f k = f x) xs)
       \<and> sorted_wrt (\<lambda>a b. f a = f b \<longrightarrow> a < b) (rev (foldl (insertion_sort_step cmp) [] xs))"
  using assms
proof (induction xs rule: rev_induct)
  case Nil
  then show ?case by simp
next
  case (snoc val xs)
  let ?R = "foldl (insertion_sort_step cmp) [] xs"
  let ?P = "\<lambda>p. f val < f p"
  let ?tw = "takeWhile ?P ?R" and ?dw = "dropWhile ?P ?R"
  let ?Q = "\<lambda>a b. f a = f b \<longrightarrow> a < b"
  have "mset ?R = mset xs"
    by (simp add: mset_foldl_insertion_sort_step)
  then have st: "set ?R = set xs"
    by (rule mset_eq_setD)
  have c: "\<And>p. p \<in> set ?R \<Longrightarrow> cmp val p = (f val < f p)"
    using snoc.prems(1) st by simp
  have lt: "\<forall>x\<in>set xs. x < val" and asc: "sorted_wrt (<) xs"
    using snoc.prems(2) by (simp_all add: sorted_wrt_append)
  have IH: "sorted (map f (rev ?R))"
      "\<And>k. filter (\<lambda>x. f k = f x) (rev ?R) = filter (\<lambda>x. f k = f x) xs"
      "sorted_wrt ?Q (rev ?R)"
    using snoc.IH snoc.prems(1) asc by simp_all
  have step: "insertion_sort_step cmp ?R val = ?tw @ val # ?dw"
    and dle: "\<forall>p\<in>set ?dw. f p \<le> f val"
    using insertion_sort_step_sorted [of ?R cmp val f, OF c IH(1)] by blast+
  have tgt: "\<forall>t\<in>set ?tw. f val < f t"
    by (auto dest: set_takeWhileD)
  have R: "rev ?R = rev ?dw @ rev ?tw"
    by (metis rev_append takeWhile_dropWhile_id)
  have new: "rev (foldl (insertion_sort_step cmp) [] (xs @ [val])) = rev ?dw @ val # rev ?tw"
    by (simp add: step)
  have dsub: "set ?dw \<subseteq> set xs"
    using set_dropWhileD [of _ ?P ?R] st by blast
  have 1: "sorted (map f (rev ?dw @ val # rev ?tw))"
    using IH(1) dle tgt unfolding R by (auto simp: sorted_append)
  have 2: "filter (\<lambda>x. f k = f x) (rev ?dw @ val # rev ?tw)
           = filter (\<lambda>x. f k = f x) (xs @ [val])" for k
  proof (cases "f k = f val")
    case True
    have "filter (\<lambda>x. f k = f x) (rev ?tw) = []"
      using tgt True by (auto simp: filter_empty_conv)
    then show ?thesis
      using IH(2) [of k] True unfolding R by simp
  next
    case False
    then show ?thesis
      using IH(2) [of k] unfolding R by simp
  qed
  have 3: "sorted_wrt ?Q (rev ?dw @ val # rev ?tw)"
    using IH(3) tgt lt dsub unfolding R by (auto simp: sorted_wrt_append)
  show ?case
    unfolding new using 1 2 3 by blast
qed

lemma insertion_sort_sort_key:
  fixes f :: "'a::linorder \<Rightarrow> 'k::linorder"
  assumes "\<forall>a\<in>set xs. \<forall>b\<in>set xs. cmp a b = (f a < f b)" and "sorted_wrt (<) xs"
  shows "insertion_sort cmp xs = sort_key f xs"
proof (rule properties_for_sort_key [symmetric])
  show "mset (insertion_sort cmp xs) = mset xs"
    by (rule mset_insertion_sort)
  show "sorted (map f (insertion_sort cmp xs))"
    using insertion_sort_invariant [OF assms] by (simp add: insertion_sort_def)
  fix k
  show "filter (\<lambda>x. f k = f x) (insertion_sort cmp xs) = filter (\<lambda>x. f k = f x) xs"
    using insertion_sort_invariant [OF assms] by (simp add: insertion_sort_def)
qed

lemma sort_runs_sorted:
  assumes "sorted_wrt (\<lambda>a b. feq (input ! a) (input ! b) \<longrightarrow> a < b) xs"
  shows "sort_runs input xs = xs"
  using assms
proof (induction input xs rule: sort_runs.induct)
  case (1 input)
  then show ?case by simp
next
  case (2 input i rest)
  let ?P = "\<lambda>j. feq (input ! i) (input ! j)"
  let ?Q = "\<lambda>a b. feq (input ! a) (input ! b) \<longrightarrow> a < b"
  have hd: "\<forall>j\<in>set rest. ?Q i j" and tl: "sorted_wrt ?Q rest"
    using "2.prems" by simp_all
  have "sorted_wrt ?Q (takeWhile ?P rest)"
    using tl by (rule sorted_wrt_takeWhile)
  moreover have "\<And>a b. a \<in> set (takeWhile ?P rest) \<Longrightarrow> b \<in> set (takeWhile ?P rest)
      \<Longrightarrow> ?Q a b \<Longrightarrow> a \<le> b"
    by (auto dest!: set_takeWhileD simp: feq_def)
  ultimately have "sorted (takeWhile ?P rest)"
    by (rule sorted_wrt_mono_rel [rotated])
  moreover have "\<forall>j\<in>set (takeWhile ?P rest). i \<le> j"
    using hd by (auto dest!: set_takeWhileD)
  ultimately have "sorted (i # takeWhile ?P rest)"
    by simp
  then have "sort (i # takeWhile ?P rest) = i # takeWhile ?P rest"
    by (rule sorted_sort_id)
  moreover have "sort_runs input (dropWhile ?P rest) = dropWhile ?P rest"
    using "2.IH" sorted_wrt_dropWhile [OF tl] by simp
  ultimately show ?case
    by simp
qed

lemma flt_rank_descending:
  "x \<noteq> NaN \<Longrightarrow> y \<noteq> NaN \<Longrightarrow> flt y x = (rank_descending x < rank_descending y)"
  by (cases x; cases y) auto

lemma tf_argsort_descending_sort_key:
  assumes "NaN \<notin> set values"
  shows "tf_argsort_descending values
         = sort_key (\<lambda>i. rank_descending (values ! i)) [0..<length values]"
proof -
  let ?f = "\<lambda>i. rank_descending (values ! i)"
  let ?cmp = "\<lambda>a b. flt (values ! b) (values ! a)"
  let ?xs = "[0..<length values]"
  have "values ! a \<noteq> NaN" if "a < length values" for a
    using assms that nth_mem [of a "values"] by metis
  then have c: "\<forall>a\<in>set ?xs. \<forall>b\<in>set ?xs. ?cmp a b = (?f a < ?f b)"
    by (simp add: flt_rank_descending)
  have asc: "sorted_wrt (<) ?xs"
    by simp
  have e: "insertion_sort ?cmp ?xs = sort_key ?f ?xs"
    using c asc by (rule insertion_sort_sort_key)
  have "sorted_wrt (\<lambda>a b. ?f a = ?f b \<longrightarrow> a < b) (insertion_sort ?cmp ?xs)"
    using insertion_sort_invariant [OF c asc] by (simp add: insertion_sort_def)
  then have "sorted_wrt (\<lambda>a b. feq (values ! a) (values ! b) \<longrightarrow> a < b) (insertion_sort ?cmp ?xs)"
    by (rule sorted_wrt_mono_rel [rotated]) (auto simp: feq_def)
  then have "sort_runs values (insertion_sort ?cmp ?xs) = insertion_sort ?cmp ?xs"
    by (rule sort_runs_sorted)
  then show ?thesis
    by (simp only: tf_argsort_descending_def e)
qed

text \<open>A \<open>NaN\<close> is not moved by the values that follow it, and is passed by none of them.\<close>

lemma tf_argsort_descending_nan:
  "tf_argsort_descending [NaN, Fin 1, Fin 2, Fin 3] = [0, 3, 2, 1]"
  "tf_argsort_descending [Fin 1, NaN, Fin 2, Fin 3] = [3, 2, 0, 1]"
  by (simp_all add: tf_argsort_descending_def insertion_sort_def insertion_sort_step_def feq_def
      upt_conv_Cons)

section \<open>Hard negative mining\<close>

lemma length_sequence_err_map:
  "sequence_err (map f xs) = Inr ys \<Longrightarrow> length ys = length xs"
  using sequence_err_length [of "map f xs" ys] by simp

text \<open>
  The number of selected negatives is the smaller of \<open>num_pos * neg_pos_ratio\<close> and the
  number of negatives, as long as the product fits \<^verbatim>\<open>int32\<close>.
\<close>

lemma neg_indices_for_loss_count:
  assumes "neg_indices_for_loss self num_pos neg_pred_cls = Inr idx"
    and "0 \<le> neg_pos_ratio self" and "int num_pos * neg_pos_ratio self < 2 ^ 31"
  shows "length idx = min (num_pos * nat (neg_pos_ratio self)) (length neg_pred_cls)"
proof -
  have w: "signed_take_bit 31 (int num_pos * neg_pos_ratio self) = int num_pos * neg_pos_ratio self"
    using assms(2,3) by (intro signed_take_bit_int_eq_self) (auto intro: order_trans [of _ 0])
  obtain scores where s: "neg_minus_log_class0 neg_pred_cls = Inr scores"
    and idx: "idx = slice_to (tf_argsort_descending scores) (int num_pos * neg_pos_ratio self)"
    using assms(1) by (auto simp: neg_indices_for_loss_def w Let_def split: sum.splits)
  have "length scores = length neg_pred_cls"
    using s unfolding neg_minus_log_class0_def by (rule length_sequence_err_map)
  moreover have "nat (int num_pos * neg_pos_ratio self) = num_pos * nat (neg_pos_ratio self)"
    using assms(2) by (simp add: nat_mult_distrib)
  moreover have "\<not> int num_pos * neg_pos_ratio self < 0"
    using assms(2) by (simp add: not_less)
  ultimately show ?thesis
    by (simp add: idx slice_to_def length_argsort min.commute)
qed

lemma background_score_order:
  "minus_log_background_probability [1, 1] < minus_log_background_probability [2, 3]"
proof -
  have "exp (2::real) < exp 3"
    by simp
  then have "exp (2::real) / (exp 2 + exp 3) < 1 / 2"
    by (simp add: field_simps add_pos_pos)
  moreover have "0 < exp (2::real) / (exp 2 + exp 3)"
    by (simp add: add_pos_pos)
  ultimately have "ln (exp (2::real) / (exp 2 + exp 3)) < ln (1 / 2)"
    by (subst ln_less_cancel_iff) simp_all
  then show ?thesis
    by (simp add: minus_log_background_probability_def)
qed

text \<open>
  Claim C3 says that the selected negatives are the ones with the largest
  \<open>- log (softmax probability of class 0)\<close>. With one positive anchor, the default ratio 3
  and four negative anchors of the logits \<open>[2, 3]\<close>, \<open>[1, 1]\<close>, \<open>[1, 1]\<close>, \<open>[1, 1]\<close>, the code
  selects the last three, and leaves out the first, whose score is the largest: the code
  takes the logarithm of the raw logit.
\<close>

theorem hard_negatives_by_raw_logit:
  "neg_indices_for_loss (YOLACTLoss_init 2) 1
     [[Fin 2, Fin 3], [Fin 1, Fin 1], [Fin 1, Fin 1], [Fin 1, Fin 1]] = Inr [1, 2, 3]
   \<and> minus_log_background_probability [1, 1] < minus_log_background_probability [2, 3]"
  using background_score_order
  by (simp add: YOLACTLoss_init_def cls_defs tf_ops_defs upt_conv_Cons)

section \<open>Shapes, the scatter and the segmentation target\<close>

lemma shape3_nth:
  "shape3 t (h, w, c) \<Longrightarrow> i < h \<Longrightarrow> length (t ! i) = w"
  "shape3 t (h, w, c) \<Longrightarrow> i < h \<Longrightarrow> j < w \<Longrightarrow> length (t ! i ! j) = c"
  by (auto simp: shape3_def list_all_length)

lemma shape3_length: "shape3 t (h, w, c) \<Longrightarrow> length t = h"
  by (simp add: shape3_def)

lemma dims3_shape3: "shape3 t (h, w, c) \<Longrightarrow> 0 < h \<Longrightarrow> 0 < w \<Longrightarrow> dims3 t = (h, w, c)"
  by (cases t; cases "hd t") (auto simp: shape3_def dims3_def)

lemma zip_with_err_Inr:
  assumes "length xs = length ys"
    and "\<And>x y. (x, y) \<in> set (zip xs ys) \<Longrightarrow> f x y = Inr (g x y)"
  shows "zip_with_err f xs ys = Inr (map2 g xs ys)"
proof -
  have "map2 f xs ys = map (\<lambda>p. Inr (case p of (x, y) \<Rightarrow> g x y)) (zip xs ys)"
    using assms(2) by auto
  then have "sequence_err (map2 f xs ys) = Inr (map2 g xs ys)"
    by (simp only: sequence_err_map_Inr)
  then show ?thesis
    using assms(1) by (simp add: zip_with_err_def)
qed

lemma sigmoid1_Inr:
  "length a = length b \<Longrightarrow> sigmoid_cross_entropy_with_logits1 a b = Inr (map2 sigmoid_ce a b)"
  unfolding sigmoid_cross_entropy_with_logits1_def by (rule zip_with_err_Inr) simp_all

lemma sigmoid2_Inr:
  assumes "length a = length b" and "\<And>i. i < length a \<Longrightarrow> length (a ! i) = length (b ! i)"
  shows "sigmoid_cross_entropy_with_logits2 a b = Inr (map2 (map2 sigmoid_ce) a b)"
  unfolding sigmoid_cross_entropy_with_logits2_def
proof (rule zip_with_err_Inr [OF assms(1)])
  fix x y assume "(x, y) \<in> set (zip a b)"
  then obtain i where "i < length a" "x = a ! i" "y = b ! i"
    using assms(1) by (auto simp: set_zip)
  then show "sigmoid_cross_entropy_with_logits1 x y = Inr (map2 sigmoid_ce x y)"
    using assms(2) by (simp add: sigmoid1_Inr)
qed

lemma sigmoid3_Inr:
  assumes "shape3 a d" and "shape3 b d"
  shows "sigmoid_cross_entropy_with_logits3 a b = Inr (map2 (map2 (map2 sigmoid_ce)) a b)"
proof -
  obtain h w c where d: "d = (h, w, c)" by (cases d)
  have len: "length a = length b"
    using assms by (simp add: shape3_def d)
  show ?thesis
    unfolding sigmoid_cross_entropy_with_logits3_def
  proof (rule zip_with_err_Inr [OF len])
    fix x y assume "(x, y) \<in> set (zip a b)"
    then obtain i where i: "i < h" "x = a ! i" "y = b ! i"
      using len assms(1) by (auto simp: set_zip shape3_def d)
    have "length x = w" "length y = w"
      using i assms shape3_nth(1) d by blast+
    moreover have "\<And>j. j < w \<Longrightarrow> length (x ! j) = c \<and> length (y ! j) = c"
      using i assms shape3_nth(2) d by blast
    ultimately show "sigmoid_cross_entropy_with_logits2 x y = Inr (map2 (map2 sigmoid_ce) x y)"
      by (intro sigmoid2_Inr) simp_all
  qed
qed

lemma scatter_rows_length: "scatter_rows t ius = Inr t' \<Longrightarrow> length t' = length t"
  by (induction ius arbitrary: t) (auto split: if_splits)

lemma scatter_rows_map_of:
  "\<forall>(i, u)\<in>set ius. 0 \<le> i \<and> nat i < length t \<Longrightarrow>
   scatter_rows t ius
   = Inr (map (\<lambda>c. case map_of (rev ius) (int c) of None \<Rightarrow> t ! c | Some u \<Rightarrow> u) [0..<length t])"
proof (induction ius arbitrary: t)
  case Nil
  then show ?case by (simp add: map_nth)
next
  case (Cons iu ius)
  obtain i u where iu: "iu = (i, u)" by (cases iu)
  have i: "0 \<le> i" "nat i < length t"
    using Cons.prems iu by auto
  have rest: "\<forall>(j, v)\<in>set ius. 0 \<le> j \<and> nat j < length (t[nat i := u])"
    using Cons.prems by auto
  have "scatter_rows (t[nat i := u]) ius
        = Inr (map (\<lambda>c. case map_of (rev ius) (int c) of None \<Rightarrow> t[nat i := u] ! c | Some u \<Rightarrow> u)
                 [0..<length t])"
    using Cons.IH [OF rest] by simp
  moreover have "\<And>c. c < length t \<Longrightarrow>
      (case map_of (rev ius) (int c) of None \<Rightarrow> t[nat i := u] ! c | Some u \<Rightarrow> u)
      = (case map_of (rev (iu # ius)) (int c) of None \<Rightarrow> t ! c | Some u \<Rightarrow> u)"
    using i by (auto simp: iu map_add_def nth_list_update split: option.splits)
  ultimately show ?case
    using i by (simp add: iu)
qed


lemma zeros_transposed_nth:
  assumes "shape3 sg (h, w, C)" and "c < C" and "i < h" and "j < w"
  shows "transpose_201 C (map (map (map (\<lambda>_. Fin 0))) sg) ! c ! i ! j = Fin 0"
  using assms shape3_nth [OF assms(1)] by (simp add: transpose_201_def shape3_length)

lemma seg_target_value:
  assumes rs: "resize_masks seg_shape masks = Inr masks'"
    and sh: "shape3 sg (seg_shape, seg_shape, C)" and big: "2 \<le> seg_shape"
    and m1: "length masks \<noteq> 1"
    and len: "length (slice_to cls objects) = length (slice_to masks' objects)"
    and rng: "\<forall>c\<in>set (slice_to cls objects). 0 \<le> c \<and> c < int C"
  shows "seg_target seg_shape sg masks cls objects
         = Inr (map (\<lambda>i. map (\<lambda>j. map (\<lambda>c.
                  case map_of (rev (zip (slice_to cls objects) (slice_to masks' objects))) (int c) of
                    None \<Rightarrow> Fin 0
                  | Some m \<Rightarrow> m ! i ! j) [0..<C]) [0..<seg_shape]) [0..<seg_shape])"
proof -
  let ?ius = "zip (slice_to cls objects) (slice_to masks' objects)"
  let ?z = "transpose_201 C (map (map (map (\<lambda>_. Fin 0))) sg)"
  have d: "dims3 sg = (seg_shape, seg_shape, C)"
    using dims3_shape3 [OF sh] big by simp
  have lz: "length ?z = C"
    by (simp add: transpose_201_def)
  have "\<forall>(i, u)\<in>set ?ius. 0 \<le> i \<and> nat i < length ?z"
    using rng by (auto simp: lz dest!: set_zip_leftD)
  then have sc: "scatter_rows ?z ?ius
      = Inr (map (\<lambda>c. case map_of (rev ?ius) (int c) of None \<Rightarrow> ?z ! c | Some u \<Rightarrow> u) [0..<C])"
    using scatter_rows_map_of [of ?ius ?z] by (simp only: lz)
  have tr: "transpose_120 seg_shape seg_shape
              (map (\<lambda>c. case map_of (rev ?ius) (int c) of None \<Rightarrow> ?z ! c | Some u \<Rightarrow> u) [0..<C])
      = map (\<lambda>i. map (\<lambda>j. map (\<lambda>c.
                  case map_of (rev ?ius) (int c) of None \<Rightarrow> Fin 0 | Some m \<Rightarrow> m ! i ! j)
              [0..<C]) [0..<seg_shape]) [0..<seg_shape]"
    unfolding transpose_120_def
    using zeros_transposed_nth [OF sh]
    by (auto simp: comp_def split: option.splits)
  show ?thesis
    using m1 big len
    by (simp add: seg_target_def rs d tensor_scatter_nd_update_def sc tr)
qed


lemma shape3_table:
  "shape3 (map (\<lambda>i. map (\<lambda>j. map (F i j) [0..<c]) [0..<w]) [0..<h]) (h, w, c)"
  by (simp add: shape3_def list_all_iff)

lemma tensor_scatter_nd_update_length:
  "tensor_scatter_nd_update t idx upd = Inr t' \<Longrightarrow> length t' = length t"
  by (auto simp: tensor_scatter_nd_update_def scatter_rows_length split: if_splits)

lemma seg_target_shape:
  assumes "seg_target seg_shape sg masks cls objects = Inr gt"
    and sh: "shape3 sg (seg_shape, seg_shape, C)"
  shows "shape3 gt (seg_shape, seg_shape, C)"
proof -
  have big: "2 \<le> seg_shape"
    using assms(1) by (auto simp: seg_target_def split: sum.splits prod.splits if_splits)
  have d: "dims3 sg = (seg_shape, seg_shape, C)"
    using dims3_shape3 [OF sh] big by simp
  obtain t' where t': "length t' = C" and gt: "gt = transpose_120 seg_shape seg_shape t'"
    using assms(1) tensor_scatter_nd_update_length
    by (fastforce simp: seg_target_def d Let_def transpose_201_def split: sum.splits if_splits)
  show ?thesis
    unfolding gt transpose_120_def
    by (simp add: shape3_def list_all_iff t')
qed

lemma loss_seg_image_bce:
  assumes "seg_target seg_shape sg masks cls objects = Inr gt"
    and "shape3 sg (seg_shape, seg_shape, C)"
  shows "loss_seg_image seg_shape sg masks cls objects = Inr (image_bce_sum gt sg)"
  using sigmoid3_Inr [OF seg_target_shape [OF assms] assms(2)] assms(1)
  by (simp add: loss_seg_image_def image_bce_sum_def reduce_sum_sum_list)

lemma loss_seg_loop_sum:
  assumes "\<forall>idx\<in>set idxs. idx < length pred_seg \<and> idx < length mask_gt \<and> idx < length cl
             \<and> idx < length no
             \<and> loss_seg_image seg_shape (pred_seg ! idx) (mask_gt ! idx) (cl ! idx) (no ! idx)
                 = Inr (l idx)"
  shows "loss_seg_loop seg_shape pred_seg mask_gt cl no idxs acc
         = Inr (acc + sum_list (map l idxs))"
  using assms
proof (induction idxs arbitrary: acc)
  case Nil
  then show ?case by simp
next
  case (Cons idx idxs)
  then show ?case
    by (simp add: tf_index_def add.assoc)
qed

lemma map2_nth: "length xs = length ys \<Longrightarrow> map2 f xs ys = map (\<lambda>i. f (xs ! i) (ys ! i)) [0..<length xs]"
  by (rule nth_equalityI) simp_all

lemma loss_semantic_segmentation_value:
  assumes B: "length pred_seg = B" "length mask_gt = B" "length cl = B" "length no = B" "0 < B"
    and sh: "\<forall>sg\<in>set pred_seg. shape3 sg (Hs, Hs, C)"
    and gts: "length gts = B"
    and tg: "\<forall>i<B. seg_target Hs (pred_seg ! i) (mask_gt ! i) (cl ! i) (no ! i) = Inr (gts ! i)"
  shows "loss_semantic_segmentation pred_seg mask_gt cl no
         = Inr (sum_list (map2 image_bce_sum gts pred_seg) / Fin (real (Hs * Hs)) / Fin (real B))"
proof -
  have hd: "(case pred_seg of [] \<Rightarrow> 0 | sg # _ \<Rightarrow> length sg) = Hs"
    using B sh by (cases pred_seg) (auto simp: shape3_def)
  have "\<forall>idx\<in>set [0..<B]. idx < length pred_seg \<and> idx < length mask_gt \<and> idx < length cl
          \<and> idx < length no
          \<and> loss_seg_image Hs (pred_seg ! idx) (mask_gt ! idx) (cl ! idx) (no ! idx)
              = Inr (image_bce_sum (gts ! idx) (pred_seg ! idx))"
    using B sh tg by (auto intro!: loss_seg_image_bce)
  then have "loss_seg_loop Hs pred_seg mask_gt cl no [0..<B] (Fin 0)
      = Inr (Fin 0 + sum_list (map (\<lambda>i. image_bce_sum (gts ! i) (pred_seg ! i)) [0..<B]))"
    by (rule loss_seg_loop_sum)
  moreover have "map (\<lambda>i. image_bce_sum (gts ! i) (pred_seg ! i)) [0..<B]
      = map2 image_bce_sum gts pred_seg"
    using map2_nth [of gts pred_seg image_bce_sum] B gts by simp
  moreover have "Fin 0 + x = x" for x :: tf_float
    by (simp add: zero_tf_float_def [symmetric])
  ultimately show ?thesis
    using B by (simp add: loss_semantic_segmentation_def hd)
qed






lemma resize_masks_length: "resize_masks n masks = Inr masks' \<Longrightarrow> length masks' = length masks"
  by (auto simp: resize_masks_def split: sum.splits dest: length_sequence_err_map)

section \<open>Resized masks and the target map\<close>

lemma interpolation_weights_bounds:
  assumes "0 < n" and "0 < out" and "i < out"
    and "interpolation_weights n out i = (y0, y1, l)"
  shows "y0 < n" and "y1 < n" and "0 \<le> l" and "l \<le> 1"
proof -
  define x where "x = (real i + 1 / 2) * (real n / real out) - 1 / 2"
  have e: "y0 = nat (max \<lfloor>x\<rfloor> 0)" "y1 = nat (min \<lceil>x\<rceil> (int n - 1))" "l = x - real_of_int \<lfloor>x\<rfloor>"
    using assms(4) by (simp_all add: interpolation_weights_def Let_def x_def)
  have "real i + 1 / 2 < real out"
    using assms(3) by simp
  then have "(real i + 1 / 2) * (real n / real out) < real out * (real n / real out)"
    using assms(1,2) by (intro mult_strict_right_mono) simp_all
  then have "x < real n"
    using assms(2) by (simp add: x_def)
  then have "\<lfloor>x\<rfloor> < int n"
    by (simp add: floor_less_iff)
  then show "y0 < n"
    using assms(1) by (simp add: e)
  show "y1 < n"
    using assms(1) by (simp add: e)
  show "0 \<le> l" "l \<le> 1"
    by (simp_all add: e) linarith
qed

lemma lerp_unit:
  fixes a b l :: real
  assumes "0 \<le> a" "a \<le> 1" "0 \<le> b" "b \<le> 1" "0 \<le> l" "l \<le> 1"
  shows "0 \<le> a + (b - a) * l" and "a + (b - a) * l \<le> 1"
proof -
  have e: "a + (b - a) * l = (1 - l) * a + l * b"
    by (simp add: algebra_simps)
  show "0 \<le> a + (b - a) * l"
    unfolding e using assms by (intro add_nonneg_nonneg mult_nonneg_nonneg) simp_all
  show "a + (b - a) * l \<le> 1"
    unfolding e using assms by (intro convex_bound_le) simp_all
qed

lemma lerp_unit_interval:
  assumes "unit_interval u" and "unit_interval v" and "0 \<le> l" and "l \<le> 1"
  shows "unit_interval (u + (v - u) * Fin l)"
proof -
  obtain a b where u: "u = Fin a" "0 \<le> a" "a \<le> 1" and v: "v = Fin b" "0 \<le> b" "b \<le> 1"
    using assms(1,2) by (auto simp: unit_interval_def split: tf_float.splits)
  show ?thesis
    using lerp_unit [OF u(2,3) v(2,3) assms(3,4)]
    by (simp add: u v unit_interval_def minus_tf_float_def algebra_simps)
qed

lemma mask_ok_nth:
  assumes "mask_ok m" and "y < length m" and "x < length (hd m)"
  shows "unit_interval (m ! y ! x)"
proof -
  have "length (m ! y) = length (hd m)" and "list_all unit_interval (m ! y)"
    using assms(1,2) by (simp_all add: mask_ok_def list_all_length)
  then show ?thesis
    using assms(3) by (simp add: list_all_length)
qed

lemma bilinear_pixel_unit:
  assumes m: "mask_ok m" and y: "y0 < length m" "y1 < length m"
    and x: "x0 < length (hd m)" "x1 < length (hd m)"
    and l: "0 \<le> xl" "xl \<le> 1" "0 \<le> yl" "yl \<le> 1"
  shows "unit_interval
           (let top_left = m ! y0 ! x0; top_right = m ! y0 ! x1;
                bottom_left = m ! y1 ! x0; bottom_right = m ! y1 ! x1;
                top = top_left + (top_right - top_left) * Fin xl;
                bottom = bottom_left + (bottom_right - bottom_left) * Fin xl
            in top + (bottom - top) * Fin yl)"
  unfolding Let_def
  by (intro lerp_unit_interval mask_ok_nth m y x l)

lemma resize_bilinear_unit:
  assumes m: "mask_ok m" and Hs: "0 < Hs"
  shows "\<exists>r. resize_bilinear Hs Hs m = Inr r \<and> length r = Hs
             \<and> list_all (\<lambda>row. length row = Hs \<and> list_all unit_interval row) r"
proof -
  obtain r0 rest where c: "m = r0 # rest" and r0: "r0 \<noteq> []"
    using m by (cases m) (auto simp: mask_ok_def)
  have hd: "hd m = r0"
    by (simp add: c)
  let ?px = "\<lambda>y x. case interpolation_weights (length m) Hs y of (y0, y1, y_lerp) \<Rightarrow>
      case interpolation_weights (length r0) Hs x of (x0, x1, x_lerp) \<Rightarrow>
        (let top_left = m ! y0 ! x0; top_right = m ! y0 ! x1;
             bottom_left = m ! y1 ! x0; bottom_right = m ! y1 ! x1;
             top = top_left + (top_right - top_left) * Fin x_lerp;
             bottom = bottom_left + (bottom_right - bottom_left) * Fin x_lerp
         in top + (bottom - top) * Fin y_lerp)"
  have e: "resize_bilinear Hs Hs m = Inr (map (\<lambda>y. map (?px y) [0..<Hs]) [0..<Hs])"
    using r0 Hs by (simp add: resize_bilinear_def c split: prod.splits)
  have u: "unit_interval (?px y x)" if "y < Hs" "x < Hs" for y x
  proof -
    obtain y0 y1 yl where wy: "interpolation_weights (length m) Hs y = (y0, y1, yl)"
      by (cases "interpolation_weights (length m) Hs y")
    obtain x0 x1 xl where wx: "interpolation_weights (length r0) Hs x = (x0, x1, xl)"
      by (cases "interpolation_weights (length r0) Hs x")
    have lm: "0 < length m" and lr: "0 < length r0"
      using r0 by (simp_all add: c)
    note hy = interpolation_weights_bounds [OF lm Hs that(1) wy]
    note hx = interpolation_weights_bounds [OF lr Hs that(2) wx]
    show ?thesis
      unfolding wy wx prod.case
      using bilinear_pixel_unit [OF m hy(1,2) _ _ hx(3,4) hy(3,4), of x0 x1] hx(1,2)
      by (simp add: hd)
  qed
  show ?thesis
    unfolding e using u by (simp add: list_all_length)
qed

lemma binarize_threshold_half:
  assumes "unit_interval v"
  shows "binarize v = threshold_half v"
proof -
  obtain a where v: "v = Fin a" "0 \<le> a" "a \<le> 1"
    using assms by (auto simp: unit_interval_def split: tf_float.splits)
  show ?thesis
  proof (cases "1 / 2 \<le> a")
    case True
    then have "\<lfloor>a + 1 / 2\<rfloor> = 1"
      using v by (intro floor_unique) simp_all
    then show ?thesis
      using True v by (simp add: binarize_def tf_cast_int64_def threshold_half_def)
  next
    case False
    then have "\<lfloor>a + 1 / 2\<rfloor> = 0"
      using v by (intro floor_unique) simp_all
    then show ?thesis
      using False v by (simp add: binarize_def tf_cast_int64_def threshold_half_def)
  qed
qed

lemma resize_bilinear_binary:
  assumes "mask_ok m" and "0 < Hs"
  shows "\<exists>r. resize_bilinear Hs Hs m = Inr r \<and> map (map binarize) r = resized_binary_mask Hs m
             \<and> length (resized_binary_mask Hs m) = Hs
             \<and> list_all (\<lambda>row. length row = Hs) (resized_binary_mask Hs m)"
proof -
  obtain r where r: "resize_bilinear Hs Hs m = Inr r" "length r = Hs"
      "list_all (\<lambda>row. length row = Hs \<and> list_all unit_interval row) r"
    using resize_bilinear_unit [OF assms] by blast
  have "map (map binarize) r = map (map threshold_half) r"
    using r(3) by (auto simp: list_all_iff binarize_threshold_half)
  then show ?thesis
    using r by (simp add: resized_binary_mask_def list_all_iff)
qed

lemma resize_masks_binary:
  assumes "list_all mask_ok masks" and "0 < Hs"
  shows "resize_masks Hs masks = Inr (map (resized_binary_mask Hs) masks)"
proof -
  have ok: "mask_ok m" if "m \<in> set masks" for m
    using assms(1) that by (simp add: list_all_iff)
  have a: "resize_bilinear Hs Hs m = Inr (projr (resize_bilinear Hs Hs m))"
    and b: "map (map binarize) (projr (resize_bilinear Hs Hs m)) = resized_binary_mask Hs m"
    if mm: "m \<in> set masks" for m
  proof -
    obtain r where r: "resize_bilinear Hs Hs m = Inr r"
        "map (map binarize) r = resized_binary_mask Hs m"
      using resize_bilinear_binary [OF ok [OF mm] assms(2)] by blast
    show "resize_bilinear Hs Hs m = Inr (projr (resize_bilinear Hs Hs m))"
      by (simp add: r(1))
    show "map (map binarize) (projr (resize_bilinear Hs Hs m)) = resized_binary_mask Hs m"
      by (simp add: r)
  qed
  have "map (resize_bilinear Hs Hs) masks
        = map (\<lambda>m. Inr (projr (resize_bilinear Hs Hs m))) masks"
    by (rule map_cong [OF refl]) (rule a)
  then have "sequence_err (map (resize_bilinear Hs Hs) masks)
        = Inr (map (\<lambda>m. projr (resize_bilinear Hs Hs m)) masks)"
    by (simp only: sequence_err_map_Inr)
  moreover have "map (\<lambda>m. map (map binarize) (projr (resize_bilinear Hs Hs m))) masks
        = map (resized_binary_mask Hs) masks"
    by (rule map_cong [OF refl]) (rule b)
  ultimately show ?thesis
    by (simp add: resize_masks_def comp_def)
qed

lemma map_of_rev_zip_map:
  "map_of (rev (zip ks (map f vs))) k = map_option f (map_of (rev (zip ks vs)) k)"
proof -
  have "rev (zip ks (map f vs)) = map (\<lambda>(k, v). (k, f v)) (rev (zip ks vs))"
    by (simp add: zip_map2 rev_map)
  then show ?thesis
    by (simp only: map_of_map comp_def)
qed

lemma seg_target_map:
  assumes sh: "shape3 sg (Hs, Hs, C)" and big: "2 \<le> Hs" and m1: "length masks \<noteq> 1"
    and ok: "list_all mask_ok masks" and len: "length cls = length masks"
    and obj: "0 \<le> objects"
    and rng: "list_all (\<lambda>c. 0 \<le> c \<and> c < int C) (take (nat objects) cls)"
  shows "seg_target Hs sg masks cls objects = Inr (target_map Hs C masks cls (nat objects))"
proof -
  let ?n = "nat objects"
  let ?RB = "resized_binary_mask Hs"
  have rs: "resize_masks Hs masks = Inr (map ?RB masks)"
    using ok big by (intro resize_masks_binary) simp_all
  have s: "slice_to xs objects = take ?n xs" for xs :: "'b list"
    using obj by (simp add: slice_to_def)
  have l: "length (slice_to cls objects) = length (slice_to (map ?RB masks) objects)"
    using len by (simp add: s)
  have r: "\<forall>c\<in>set (slice_to cls objects). 0 \<le> c \<and> c < int C"
    using rng by (simp add: s list_all_iff)
  have c: "(case map_option ?RB x of None \<Rightarrow> Fin 0 | Some m \<Rightarrow> m ! i ! j)
           = (case x of None \<Rightarrow> Fin 0 | Some m \<Rightarrow> ?RB m ! i ! j)" for x i j
    by (cases x) simp_all
  show ?thesis
    unfolding seg_target_value [OF rs sh big m1 l r] target_map_def s take_map
      map_of_rev_zip_map c ..
qed

section \<open>The segmentation target\<close>




section \<open>An image without objects\<close>

lemma sigmoid_ce_zero_target: "sigmoid_ce (Fin 0) (Fin a) = Fin (ln (1 + exp a))"
proof (cases "0 \<le> a")
  case True
  have "0 < 1 + exp (- a)"
    by (simp add: add_pos_pos)
  then have "a + ln (1 + exp (- a)) = ln (exp a * (1 + exp (- a)))"
    by (simp add: ln_mult)
  also have "exp a * (1 + exp (- a)) = 1 + exp a"
    by (simp add: algebra_simps exp_minus)
  finally show ?thesis
    using True \<open>0 < 1 + exp (- a)\<close> by (simp add: sigmoid_ce_def minus_tf_float_def)
next
  case False
  moreover have "0 < 1 + exp a"
    by (simp add: add_pos_pos)
  ultimately show ?thesis
    by (simp add: sigmoid_ce_def minus_tf_float_def)
qed





section \<open>The segmentation loss of a square segmentation\<close>

lemma loss_seg_image_raises:
  assumes "length masks = 1 \<or> seg_shape \<le> 1 \<or> fst (dims3 sg) \<noteq> seg_shape
           \<or> fst (snd (dims3 sg)) \<noteq> seg_shape"
  shows "loss_seg_image seg_shape sg masks cls objects = Inl InvalidArgument"
  using assms
  by (auto simp: loss_seg_image_def seg_target_def tf_error_is split: sum.splits prod.splits)

text \<open>
  Claim C6, as amended. Take a batch of \<open>B > 0\<close> images whose segmentation logits are
  square maps \<open>[Hs, Hs, C]\<close> with \<open>Hs \<ge> 2\<close>, every image with a number of mask slots other
  than 1, every mask a non-empty rectangle of values between 0 and 1, as many class slots
  as mask slots, an object count \<open>\<ge> 0\<close> and the classes of its objects among the \<open>C\<close>
  classes. Then the loss is the sum over the images of the sigmoid cross entropy of the
  logits against the target map, divided by \<open>Hs * Hs\<close> and by \<open>B\<close>.
\<close>

theorem loss_semantic_segmentation_square:
  assumes "length pred_seg = B" and "length mask_gt = B" and "length cl = B"
    and "length no = B" and "0 < B"
    and "\<forall>i<B. seg_image_ok Hs C (pred_seg ! i) (mask_gt ! i) (cl ! i) (no ! i)"
  shows "loss_semantic_segmentation pred_seg mask_gt cl no
         = Inr (sum_list (map (\<lambda>i. image_bce_sum
                   (target_map Hs C (mask_gt ! i) (cl ! i) (nat (no ! i))) (pred_seg ! i)) [0..<B])
                / Fin (real (Hs * Hs)) / Fin (real B))"
proof -
  let ?gts = "map (\<lambda>i. target_map Hs C (mask_gt ! i) (cl ! i) (nat (no ! i))) [0..<B]"
  have sh: "\<forall>sg\<in>set pred_seg. shape3 sg (Hs, Hs, C)"
    using assms(1,6) by (auto simp: in_set_conv_nth seg_image_ok_def)
  have tg: "\<forall>i<B. seg_target Hs (pred_seg ! i) (mask_gt ! i) (cl ! i) (no ! i) = Inr (?gts ! i)"
    using assms(6) by (auto simp: seg_image_ok_def intro!: seg_target_map)
  have "map2 image_bce_sum ?gts pred_seg
        = map (\<lambda>i. image_bce_sum (target_map Hs C (mask_gt ! i) (cl ! i) (nat (no ! i)))
                 (pred_seg ! i)) [0..<B]"
    using assms(1) by (intro nth_equalityI) simp_all
  then show ?thesis
    using loss_semantic_segmentation_value [OF assms(1-5) sh _ tg] by simp
qed

text \<open>
  Two images of 2 by 2 pixels and one class: the first with one object, whose mask covers
  the image, and logits 0; the second without objects, and with one logit 1.
\<close>

theorem loss_semantic_segmentation_square_witness:
  "loss_semantic_segmentation
     [[[[Fin 0], [Fin 0]], [[Fin 0], [Fin 0]]], [[[Fin 1], [Fin 0]], [[Fin 0], [Fin 0]]]]
     [[[[Fin 1]], [[Fin 0]]], [[[Fin 1]], [[Fin 0]]]] [[0, 0], [0, 0]] [1, 0]
   = Inr (Fin ((4 * ln 2 + (ln (1 + exp 1) + 3 * ln 2)) / (2 * 2) / 2))"
proof -
  let ?pred = "[[[[Fin 0], [Fin 0]], [[Fin 0], [Fin 0]]], [[[Fin 1], [Fin 0]], [[Fin 0], [Fin 0]]]]"
  let ?masks = "[[[[Fin 1]], [[Fin 0]]], [[[Fin 1]], [[Fin 0]]]]"
  have ok: "\<forall>i<2. seg_image_ok 2 1 (?pred ! i) (?masks ! i) ([[0, 0], [0, 0]] ! i) ([1, 0] ! i)"
    by (auto simp: less_2_cases_iff seg_image_ok_def shape3_def mask_ok_def unit_interval_def)
  have t: "target_map 2 (Suc 0) [[[Fin 1]], [[Fin 0]]] [0, 0] (Suc 0)
           = [[[Fin 1], [Fin 1]], [[Fin 1], [Fin 1]]]"
    "target_map 2 (Suc 0) [[[Fin 1]], [[Fin 0]]] [0, 0] 0
     = [[[Fin 0], [Fin 0]], [[Fin 0], [Fin 0]]]"
    by (simp_all add: target_map_def resized_binary_mask_def threshold_half_def
        resize_bilinear_def interpolation_weights_def upt_conv_Cons Let_def minus_tf_float_def)
  have s: "image_bce_sum [[[Fin 1], [Fin 1]], [[Fin 1], [Fin 1]]]
             [[[Fin 0], [Fin 0]], [[Fin 0], [Fin 0]]] = Fin (4 * ln 2)"
    "image_bce_sum [[[Fin 0], [Fin 0]], [[Fin 0], [Fin 0]]]
             [[[Fin 1], [Fin 0]], [[Fin 0], [Fin 0]]] = Fin (ln (1 + exp 1) + 3 * ln 2)"
    by (simp_all add: image_bce_sum_def sigmoid_ce_zero_target)
       (simp add: sigmoid_ce_def minus_tf_float_def)
  show ?thesis
    using loss_semantic_segmentation_square [of ?pred 2 ?masks "[[0, 0], [0, 0]]" "[1, 0]" 2 1,
        OF _ _ _ _ _ ok]
    by (simp add: upt_conv_Cons t s)
qed

text \<open>
  Claim C6 as stated, for every resolution, fails for a segmentation of 2 by 3 pixels: the
  masks are resized to 2 by 2 pixels, and the scatter rejects them. It fails for a
  segmentation of 1 by 1 pixel and for an image with one mask slot: \<^verbatim>\<open>tf.squeeze\<close>
  removes the axes of size 1, and the scatter rejects what is left.
\<close>

theorem loss_semantic_segmentation_not_square_counterexample:
  "loss_semantic_segmentation [[[[Fin 0], [Fin 0], [Fin 0]], [[Fin 0], [Fin 0], [Fin 0]]]]
     [[[[Fin 1]], [[Fin 0]]]] [[0, 0]] [1] = Inl InvalidArgument
   \<and> loss_semantic_segmentation [[[[Fin 0]]]] [[[[Fin 1]], [[Fin 0]]]] [[0, 0]] [1]
     = Inl InvalidArgument
   \<and> loss_semantic_segmentation [[[[Fin 0], [Fin 0]], [[Fin 0], [Fin 0]]]] [[[[Fin 1]]]] [[0]] [1]
     = Inl InvalidArgument"
  by (simp add: seg_defs transpose_201_def sigmoid_defs tf_ops_defs upt_conv_Cons Let_def)

section \<open>Permutations of the anchors\<close>

lemma positive_anchors_select: "positive_anchors t pos = concat (map2 (select_eq 1) t pos)"
  by (simp add: positive_anchors_def select_eq_def)

lemma perm_set: "mset p = mset [0..<n] \<Longrightarrow> set p = {0..<n}"
  using mset_eq_setD by fastforce

lemma perm_length: "mset p = mset [0..<n] \<Longrightarrow> length p = n"
  using mset_eq_length by fastforce

lemma mset_permute:
  assumes "mset p = mset [0..<length xs]"
  shows "mset (permute p xs) = mset xs"
proof -
  have "mset (permute p xs) = image_mset (nth xs) (mset [0..<length xs])"
    unfolding permute_def using assms by (simp del: mset_upt)
  also have "\<dots> = mset (map (nth xs) [0..<length xs])"
    by (simp del: mset_upt)
  finally show ?thesis
    by (simp add: map_nth)
qed

lemma length_permute: "length (permute p xs) = length p"
  by (simp add: permute_def)

lemma zip_permute:
  assumes "mset p = mset [0..<length xs]" and "length ys = length xs"
  shows "zip (permute p xs) (permute p ys) = permute p (zip xs ys)"
proof -
  have "\<And>i. i \<in> set p \<Longrightarrow> i < length xs"
    using perm_set [OF assms(1)] by auto
  then show ?thesis
    using assms(2) by (simp add: permute_def zip_map_map zip_same_conv_map)
qed

lemma mset_select_eq_permute:
  assumes "mset p = mset [0..<length xs]" and "length ps = length xs"
  shows "mset (select_eq v (permute p xs) (permute p ps)) = mset (select_eq v xs ps)"
proof -
  have "mset (permute p (zip xs ps)) = mset (zip xs ps)"
    using assms by (intro mset_permute) simp
  then show ?thesis
    unfolding select_eq_def zip_permute [OF assms] by (simp only: mset_map mset_filter)
qed


lemma positive_anchors_with: "positive_anchors t pos = anchors_with 1 t pos"
  by (simp add: positive_anchors_select anchors_with_def)

lemma same_anchorsD:
  assumes "same_anchors t pos"
  shows "length t = length pos" and "\<And>b. b < length pos \<Longrightarrow> length (t ! b) = length (pos ! b)"
  using assms by (auto simp: same_anchors_def list_all2_conv_all_nth)

lemma anchor_permutationsD:
  assumes "anchor_permutations ps pos"
  shows "length ps = length pos"
    and "\<And>b. b < length pos \<Longrightarrow> mset (ps ! b) = mset [0..<length (pos ! b)]"
  using assms by (auto simp: anchor_permutations_def list_all2_conv_all_nth)

lemma length_permute_anchors:
  "length ps = length t \<Longrightarrow> length (permute_anchors ps t) = length t"
  by (simp add: permute_anchors_def)

lemma nth_permute_anchors:
  "b < length ps \<Longrightarrow> b < length t \<Longrightarrow> permute_anchors ps t ! b = permute (ps ! b) (t ! b)"
  by (simp add: permute_anchors_def)

lemma same_anchors_permute:
  assumes "anchor_permutations ps pos" and "same_anchors t pos"
  shows "same_anchors (permute_anchors ps t) (permute_anchors ps pos)"
  using anchor_permutationsD [OF assms(1)] same_anchorsD [OF assms(2)]
  by (simp add: same_anchors_def list_all2_conv_all_nth length_permute_anchors
      nth_permute_anchors length_permute)

lemma mset_concat_cong:
  assumes "length xss = length yss" and "\<And>i. i < length xss \<Longrightarrow> mset (xss ! i) = mset (yss ! i)"
  shows "mset (concat xss) = mset (concat yss)"
proof -
  have "map mset xss = map mset yss"
    using assms by (intro nth_equalityI) simp_all
  then show ?thesis
    by (simp add: mset_concat)
qed

lemma mset_anchors_with_permute:
  assumes ps: "anchor_permutations ps pos" and t: "same_anchors t pos"
  shows "mset (anchors_with v (permute_anchors ps t) (permute_anchors ps pos))
         = mset (anchors_with v t pos)"
  unfolding anchors_with_def
proof (rule mset_concat_cong)
  show "length (map2 (select_eq v) (permute_anchors ps t) (permute_anchors ps pos))
        = length (map2 (select_eq v) t pos)"
    using anchor_permutationsD(1) [OF ps] same_anchorsD(1) [OF t]
    by (simp add: length_permute_anchors)
next
  fix i assume "i < length (map2 (select_eq v) (permute_anchors ps t) (permute_anchors ps pos))"
  then have i: "i < length pos"
    using anchor_permutationsD(1) [OF ps] same_anchorsD(1) [OF t]
    by (simp add: length_permute_anchors)
  have "mset (select_eq v (permute (ps ! i) (t ! i)) (permute (ps ! i) (pos ! i)))
        = mset (select_eq v (t ! i) (pos ! i))"
    using anchor_permutationsD(2) [OF ps i] same_anchorsD(2) [OF t i]
    by (intro mset_select_eq_permute) simp_all
  then show "mset (map2 (select_eq v) (permute_anchors ps t) (permute_anchors ps pos) ! i)
        = mset (map2 (select_eq v) t pos ! i)"
    using i anchor_permutationsD(1) [OF ps] same_anchorsD(1) [OF t]
    by (simp add: length_permute_anchors nth_permute_anchors)
qed

lemma same_anchors_pair:
  assumes "same_anchors t1 pos" and "same_anchors t2 pos"
  shows "same_anchors (pair_anchors t1 t2) pos"
  using same_anchorsD [OF assms(1)] same_anchorsD [OF assms(2)]
  by (simp add: same_anchors_def list_all2_conv_all_nth pair_anchors_def)

lemma select_eq_zip:
  assumes "length xs = length ps" and "length ys = length ps"
  shows "zip (select_eq v xs ps) (select_eq v ys ps) = select_eq v (zip xs ys) ps"
proof -
  have "length xs = length ys" "length ys = length ps"
    using assms by simp_all
  then show ?thesis
  proof (induction xs ys ps rule: list_induct3)
    case Nil
    then show ?case by (simp add: select_eq_def)
  next
    case (Cons x xs y ys p ps)
    then show ?case by (simp add: select_eq_def)
  qed
qed

lemma length_select_eq':
  "length xs = length ys \<Longrightarrow> length ys = length ps \<Longrightarrow>
   length (select_eq v xs ps) = length (select_eq v ys ps)"
  by (induction xs ys ps rule: list_induct3) (simp_all add: select_eq_def)

lemma length_select_eq:
  "length xs = length ps \<Longrightarrow> length ys = length ps \<Longrightarrow>
   length (select_eq v xs ps) = length (select_eq v ys ps)"
  using length_select_eq' [of xs ys ps v] by simp

lemma zip_concat_same_lengths:
  "list_all2 (\<lambda>xs ys. length xs = length ys) xss yss \<Longrightarrow>
   zip (concat xss) (concat yss) = concat (map2 zip xss yss)"
  by (induction rule: list_all2_induct) simp_all

lemma anchors_with_zip:
  assumes "same_anchors t1 pos" and "same_anchors t2 pos"
  shows "zip (anchors_with v t1 pos) (anchors_with v t2 pos)
         = anchors_with v (pair_anchors t1 t2) pos"
proof -
  have l1: "length t1 = length pos" and l2: "length t2 = length pos"
    using assms by (simp_all add: same_anchors_def)
  have r1: "length (t1 ! b) = length (pos ! b)" and r2: "length (t2 ! b) = length (pos ! b)"
    if "b < length pos" for b
    using that same_anchorsD(2) [OF assms(1)] same_anchorsD(2) [OF assms(2)] by blast+
  let ?s1 = "map2 (select_eq v) t1 pos" and ?s2 = "map2 (select_eq v) t2 pos"
  have "list_all2 (\<lambda>xs ys. length xs = length ys) ?s1 ?s2"
    unfolding list_all2_conv_all_nth
  proof (intro conjI allI impI)
    show "length ?s1 = length ?s2"
      by (simp add: l1 l2)
    fix b assume "b < length ?s1"
    then have b: "b < length pos"
      by (simp add: l1)
    then show "length (?s1 ! b) = length (?s2 ! b)"
      using length_select_eq [OF r1 [OF b] r2 [OF b], of v] by (simp add: l1 l2)
  qed
  then have "zip (concat ?s1) (concat ?s2) = concat (map2 zip ?s1 ?s2)"
    by (rule zip_concat_same_lengths)
  moreover have "map2 zip ?s1 ?s2 = map2 (select_eq v) (pair_anchors t1 t2) pos"
  proof (rule nth_equalityI)
    show "length (map2 zip ?s1 ?s2) = length (map2 (select_eq v) (pair_anchors t1 t2) pos)"
      by (simp add: l1 l2 pair_anchors_def)
    fix b assume "b < length (map2 zip ?s1 ?s2)"
    then have b: "b < length pos"
      by (simp add: l1 l2)
    then show "map2 zip ?s1 ?s2 ! b = map2 (select_eq v) (pair_anchors t1 t2) pos ! b"
      using select_eq_zip [OF r1 [OF b] r2 [OF b], of v] by (simp add: l1 l2 pair_anchors_def)
  qed
  ultimately show ?thesis
    by (simp only: anchors_with_def)
qed

lemma permute_anchors_pair:
  assumes "anchor_permutations ps pos" and "same_anchors t1 pos" and "same_anchors t2 pos"
  shows "pair_anchors (permute_anchors ps t1) (permute_anchors ps t2)
         = permute_anchors ps (pair_anchors t1 t2)"
proof (rule nth_equalityI)
  have lp: "length ps = length pos"
    using assms(1) by (rule anchor_permutationsD(1))
  have l1: "length t1 = length pos" and l2: "length t2 = length pos"
    using assms by (simp_all add: same_anchors_def)
  show "length (pair_anchors (permute_anchors ps t1) (permute_anchors ps t2))
        = length (permute_anchors ps (pair_anchors t1 t2))"
    by (simp add: pair_anchors_def permute_anchors_def lp l1 l2)
  fix b assume "b < length (pair_anchors (permute_anchors ps t1) (permute_anchors ps t2))"
  then have b: "b < length pos"
    by (simp add: pair_anchors_def permute_anchors_def lp l1 l2)
  have "mset (ps ! b) = mset [0..<length (t1 ! b)]" and "length (t2 ! b) = length (t1 ! b)"
    using anchor_permutationsD(2) [OF assms(1) b] same_anchorsD(2) [OF assms(2) b]
      same_anchorsD(2) [OF assms(3) b] by simp_all
  then have "zip (permute (ps ! b) (t1 ! b)) (permute (ps ! b) (t2 ! b))
             = permute (ps ! b) (zip (t1 ! b) (t2 ! b))"
    by (rule zip_permute)
  then show "pair_anchors (permute_anchors ps t1) (permute_anchors ps t2) ! b
             = permute_anchors ps (pair_anchors t1 t2) ! b"
    using b by (simp add: pair_anchors_def permute_anchors_def lp l1 l2)
qed


lemma sequence_err_map_cases:
  "sequence_err (map f xs)
   = (if \<forall>x\<in>set xs. \<exists>y. f x = Inr y then Inr (map (\<lambda>x. projr (f x)) xs)
      else Inl InvalidArgument)"
proof (induction xs)
  case Nil
  then show ?case by simp
next
  case (Cons x xs)
  show ?case
  proof (cases "f x")
    case (Inl e)
    then show ?thesis by (auto simp: tf_error_is)
  next
    case (Inr y)
    then show ?thesis using Cons.IH by auto
  qed
qed

lemma sum_err_mset:
  fixes f :: "'a \<Rightarrow> tf_error + tf_float"
  assumes "mset xs = mset ys"
  shows "(case sequence_err (map f xs) of
            Inl e \<Rightarrow> Inl e
          | Inr ls \<Rightarrow> Inr (g (sum_list ls) (length ls)))
         = (case sequence_err (map f ys) of
              Inl e \<Rightarrow> Inl e
            | Inr ls \<Rightarrow> Inr (g (sum_list ls) (length ls)))"
proof -
  have s: "set xs = set ys"
    using assms by (rule mset_eq_setD)
  have l: "length xs = length ys"
    using assms by (rule mset_eq_length)
  have "sum_mset (image_mset (\<lambda>x. projr (f x)) (mset xs))
        = sum_mset (image_mset (\<lambda>x. projr (f x)) (mset ys))"
    using assms by simp
  then have "sum_list (map (\<lambda>x. projr (f x)) xs) = sum_list (map (\<lambda>x. projr (f x)) ys)"
    by (metis mset_map sum_mset_sum_list)
  then show ?thesis
    by (simp add: sequence_err_map_cases s l)
qed

lemma loss_location_pairs:
  assumes po: "same_anchors po pos" and gt: "same_anchors gt pos"
  shows "loss_location po gt pos
         = (case sequence_err (map (\<lambda>(g, p). huber (Fin 1) g p)
                    (anchors_with 1 (pair_anchors gt po) pos)) of
              Inl e \<Rightarrow> Inl e
            | Inr ls \<Rightarrow> Inr (sum_list ls / Fin (real (length ls))))"
proof -
  let ?zs = "anchors_with 1 (pair_anchors gt po) pos"
  have z: "zip (positive_anchors gt pos) (positive_anchors po pos) = ?zs"
    using anchors_with_zip [OF gt po] by (simp add: positive_anchors_with)
  have len: "length (positive_anchors gt pos) = length ?zs"
    using length_positive_anchors [OF gt] length_positive_anchors [OF po] z [symmetric]
    by simp
  have "\<And>ls. sequence_err (map (\<lambda>(g, p). huber (Fin 1) g p) ?zs) = Inr ls \<Longrightarrow>
      length ls = length ?zs"
    by (rule length_sequence_err_map)
  then show ?thesis
    unfolding loss_location_def Let_def tf_gather_nd_where [OF po] tf_gather_nd_where [OF gt]
    by (auto simp: z len reduce_sum_sum_list split: sum.splits)
qed

lemma loss_location_permute:
  assumes ps: "anchor_permutations ps pos"
    and po: "same_anchors po pos" and gt: "same_anchors gt pos"
  shows "loss_location (permute_anchors ps po) (permute_anchors ps gt) (permute_anchors ps pos)
         = loss_location po gt pos"
proof -
  have "mset (anchors_with 1 (pair_anchors (permute_anchors ps gt) (permute_anchors ps po))
               (permute_anchors ps pos))
        = mset (anchors_with 1 (pair_anchors gt po) pos)"
    unfolding permute_anchors_pair [OF ps gt po]
    using ps same_anchors_pair [OF gt po] by (rule mset_anchors_with_permute)
  then show ?thesis
    unfolding loss_location_pairs [OF po gt]
      loss_location_pairs [OF same_anchors_permute [OF ps po] same_anchors_permute [OF ps gt]]
    by (rule sum_err_mset)
qed

section \<open>Permutations and the classification loss\<close>

lemma chunks_concat:
  assumes "0 < n" and "\<forall>r\<in>set rows. length r = n"
  shows "chunks n (concat rows) = rows"
  using assms(2)
proof (induction rows)
  case Nil
  then show ?case by (simp add: chunks.simps)
next
  case (Cons r rows)
  have "length r = n" and "r \<noteq> []"
    using Cons.prems assms(1) by auto
  then have "chunks n (concat (r # rows)) = r # chunks n (concat rows)"
    using assms(1) by (subst chunks.simps) simp
  then show ?case
    using Cons by simp
qed

lemma length_concat_rows:
  "\<forall>r\<in>set rows. length r = n \<Longrightarrow> length (concat rows) = n * length rows"
  by (induction rows) simp_all

lemma tf_reshape_rows_concat:
  assumes "0 < n" and "\<forall>r\<in>set rows. length r = n"
  shows "tf_reshape_rows n (concat rows) = Inr rows"
proof -
  have "length (concat rows) mod n = 0"
    by (simp add: length_concat_rows [OF assms(2)])
  then show ?thesis
    using assms(1) chunks_concat [OF assms] by (simp add: tf_reshape_rows_def)
qed

lemma select_eq_concat:
  assumes "same_anchors t pos"
  shows "select_eq v (concat t) (concat pos) = anchors_with v t pos"
proof -
  have "list_all2 (\<lambda>xs ys. length xs = length ys) t pos"
    using assms by (simp add: same_anchors_def)
  then have "zip (concat t) (concat pos) = concat (map2 zip t pos)"
    by (rule zip_concat_same_lengths)
  then show ?thesis
    by (simp add: select_eq_def anchors_with_def filter_concat map_concat comp_def split_def)
qed

lemma length_concat_same_anchors:
  assumes "same_anchors t pos"
  shows "length (concat t) = length (concat pos)"
proof -
  have "map length t = map length pos"
    using same_anchorsD [OF assms] by (intro nth_equalityI) simp_all
  then show ?thesis
    by (simp add: length_concat)
qed

lemma tf_gather_nth:
  assumes "\<forall>i\<in>set idx. i < length xs"
  shows "tf_gather xs idx = Inr (map (nth xs) idx)"
proof -
  have "map (tf_index xs) idx = map (\<lambda>i. Inr (xs ! i)) idx"
    using assms by (simp add: tf_index_def)
  then show ?thesis
    by (simp only: tf_gather_def sequence_err_map_Inr)
qed

lemma tf_gather_where:
  assumes "length xs = length ps"
  shows "tf_gather xs (tf_where_eq ps v) = Inr (select_eq v xs ps)"
proof -
  have "tf_gather xs (tf_where_eq ps v) = Inr (map (nth xs) (tf_where_eq ps v))"
    using assms by (intro tf_gather_nth) (simp add: tf_where_eq_def)
  then show ?thesis
    using nth_filter_upt [OF assms, of v] by (simp add: tf_where_eq_def select_eq_def)
qed

lemma neg_minus_log_class0_scores:
  assumes "\<forall>row\<in>set rows. row \<noteq> []"
  shows "neg_minus_log_class0 rows = Inr (map hard_negative_score rows)"
proof -
  have "map (\<lambda>row. case tf_index row 0 of Inl e \<Rightarrow> Inl e | Inr p \<Rightarrow> Inr (Fin (- 1) * flog p)) rows
        = map (\<lambda>row. Inr (hard_negative_score row)) rows"
    using assms by (simp add: tf_index_def hard_negative_score_def)
  then show ?thesis
    by (simp only: neg_minus_log_class0_def sequence_err_map_Inr)
qed

lemma map_nth_filter_upt: "map (nth xs) (filter (\<lambda>i. P (xs ! i)) [0..<length xs]) = filter P xs"
proof -
  have "filter P (map (nth xs) [0..<length xs]) = filter P xs"
    by (simp only: map_nth)
  then show ?thesis
    by (simp add: filter_map comp_def)
qed

lemma map_nth_sort_key_indices:
  "map (nth xs) (sort_key (\<lambda>i. f (xs ! i)) [0..<length xs]) = sort_key f xs"
proof (rule properties_for_sort_key [symmetric])
  let ?s = "sort_key (\<lambda>i. f (xs ! i)) [0..<length xs]"
  have "mset (map (nth xs) ?s) = image_mset (nth xs) (mset [0..<length xs])"
    by (simp del: mset_upt)
  also have "\<dots> = mset (map (nth xs) [0..<length xs])"
    by (simp del: mset_upt)
  finally show "mset (map (nth xs) ?s) = mset xs"
    by (simp only: map_nth)
  have "sorted (map (\<lambda>i. f (xs ! i)) ?s)"
    by (rule sorted_sort_key)
  then show "sorted (map f (map (nth xs) ?s))"
    by (simp add: comp_def)
  fix k
  have c: "(\<lambda>x. f k = f x) = (\<lambda>x. f x = f k)"
    by auto
  have "filter (\<lambda>x. f x = f k) (map (nth xs) ?s)
        = map (nth xs) (filter (\<lambda>i. f (xs ! i) = f k) ?s)"
    by (simp add: filter_map comp_def)
  also have "\<dots> = map (nth xs) (filter (\<lambda>i. f (xs ! i) = f k) [0..<length xs])"
    by (simp only: sort_key_stable)
  also have "\<dots> = filter (\<lambda>x. f x = f k) xs"
    by (rule map_nth_filter_upt)
  finally show "filter (\<lambda>x. f k = f x) (map (nth xs) ?s) = filter (\<lambda>x. f k = f x) xs"
    by (simp only: c)
qed

lemma map_slice_to: "map g (slice_to xs k) = slice_to (map g xs) k"
  by (simp add: slice_to_def take_map)

lemma set_slice_to: "set (slice_to xs k) \<subseteq> set xs"
  by (auto simp: slice_to_def dest: in_set_takeD)


lemma insort_key_cong_set:
  "\<forall>y\<in>set (x # ys). f y = g y \<Longrightarrow> insort_key f x ys = insort_key g x ys"
  by (induction ys) simp_all

lemma sort_key_cong_set:
  "(\<And>x. x \<in> set xs \<Longrightarrow> f x = g x) \<Longrightarrow> sort_key f xs = sort_key g xs"
proof (induction xs)
  case Nil
  then show ?case by simp
next
  case (Cons x xs)
  have "sort_key f xs = sort_key g xs"
    using Cons by simp
  moreover have "insort_key f x (sort_key g xs) = insort_key g x (sort_key g xs)"
    using Cons.prems by (intro insort_key_cong_set) simp
  ultimately show ?case by simp
qed

lemma argsort_pairs:
  assumes "length scores = length xs"
    and "\<And>i. i < length xs \<Longrightarrow> scores ! i = sc (xs ! i)"
    and "NaN \<notin> set scores"
  shows "map (nth xs) (tf_argsort_descending scores) = sort_key (\<lambda>x. rank_descending (sc x)) xs"
proof -
  have "sort_key (\<lambda>i. rank_descending (scores ! i)) [0..<length xs]
        = sort_key (\<lambda>i. rank_descending (sc (xs ! i))) [0..<length xs]"
    using assms(2) by (intro sort_key_cong_set) simp
  then show ?thesis
    using map_nth_sort_key_indices [of xs "\<lambda>x. rank_descending (sc x)"]
    by (simp add: tf_argsort_descending_sort_key [OF assms(3)] assms(1))
qed

lemma neg_indices_for_loss_pairs:
  assumes "\<forall>x\<in>set negs. fst x \<noteq> []"
    and "NaN \<notin> set (map hard_negative_score (map fst negs))"
  shows "\<exists>idx. neg_indices_for_loss self num_pos (map fst negs) = Inr idx
           \<and> (\<forall>i\<in>set idx. i < length negs)
           \<and> map (nth negs) idx = hard_negatives self num_pos negs"
proof -
  let ?scores = "map hard_negative_score (map fst negs)"
  let ?k = "signed_take_bit 31 (int num_pos * neg_pos_ratio self)"
  let ?idx = "slice_to (tf_argsort_descending ?scores) ?k"
  have "neg_minus_log_class0 (map fst negs) = Inr ?scores"
    using assms(1) by (intro neg_minus_log_class0_scores) auto
  then have "neg_indices_for_loss self num_pos (map fst negs) = Inr ?idx"
    by (simp add: neg_indices_for_loss_def)
  moreover have "\<forall>i\<in>set ?idx. i < length negs"
    using set_slice_to [of "tf_argsort_descending ?scores" ?k] set_argsort [of ?scores]
    by auto
  moreover have "map (nth negs) ?idx = hard_negatives self num_pos negs"
    using argsort_pairs [of ?scores negs "\<lambda>x. hard_negative_score (fst x)", OF _ _ assms(2)]
    by (simp add: map_slice_to hard_negatives_def)
  ultimately show ?thesis by blast
qed


lemma tf_gather_anchors_with:
  assumes "same_anchors t pos"
  shows "tf_gather (concat t) (tf_where_eq (concat pos) v) = Inr (anchors_with v t pos)"
  using tf_gather_where [OF length_concat_same_anchors [OF assms], of v]
  by (simp only: select_eq_concat [OF assms])

lemma length_anchors_with:
  assumes "same_anchors t pos"
  shows "length (anchors_with v t pos) = length (tf_where_eq (concat pos) v)"
  using tf_gather_anchors_with [OF assms, of v] unfolding tf_gather_def
  by (rule length_sequence_err_map)

lemma set_anchors_with: "set (anchors_with v t pos) \<subseteq> set (concat t)"
  by (auto simp: anchors_with_def select_eq_def dest!: set_zip_leftD)

lemma cross_entropy_pairs:
  "map2 softmax_cross_entropy_with_logits (map (one_hot nc) (map snd zs)) (map fst zs)
   = map (anchor_cross_entropy nc) zs"
  by (induction zs) (simp_all add: anchor_cross_entropy_def)

lemma map_nth_map:
  "\<forall>i\<in>set idx. i < length xs \<Longrightarrow> map (nth (map g xs)) idx = map g (map (nth xs) idx)"
  by simp

lemma loss_class_pairs:
  assumes pc: "same_anchors pc pos" and gc: "same_anchors gc pos"
    and nc: "0 < num_classes self"
    and rows: "\<forall>row\<in>set (concat pc). length row = num_classes self"
    and nn: "NaN \<notin> set (map hard_negative_score (anchors_with 0 pc pos))"
  shows "loss_class self pc gc pos
         = Inr (sum_list (map (anchor_cross_entropy (num_classes self))
                  (anchors_with 1 (pair_anchors pc gc) pos
                   @ hard_negatives self (length (anchors_with 1 (pair_anchors pc gc) pos))
                       (anchors_with 0 (pair_anchors pc gc) pos)))
                / Fin (real (length (anchors_with 1 (pair_anchors pc gc) pos))))"
proof -
  let ?PP = "anchors_with 1 (pair_anchors pc gc) pos"
  let ?NP = "anchors_with 0 (pair_anchors pc gc) pos"
  have rs: "tf_reshape_rows (num_classes self) (concat (concat pc)) = Inr (concat pc)"
    using nc rows by (rule tf_reshape_rows_concat)
  have len: "length (anchors_with v pc pos) = length (anchors_with v gc pos)" for v
    by (simp only: length_anchors_with [OF pc] length_anchors_with [OF gc])
  have z: "zip (anchors_with v pc pos) (anchors_with v gc pos)
           = anchors_with v (pair_anchors pc gc) pos" for v
    using pc gc by (rule anchors_with_zip)
  have f: "anchors_with v pc pos = map fst (anchors_with v (pair_anchors pc gc) pos)"
    and sn: "anchors_with v gc pos = map snd (anchors_with v (pair_anchors pc gc) pos)" for v
    using len [of v] by (simp_all add: z [symmetric])
  have "\<forall>x\<in>set ?NP. fst x \<noteq> []"
  proof
    fix x assume "x \<in> set ?NP"
    then have "fst x \<in> set (anchors_with 0 pc pos)"
      by (simp add: f [of 0])
    then have "length (fst x) = num_classes self"
      using set_anchors_with [of 0 pc pos] rows by blast
    then show "fst x \<noteq> []"
      using nc by auto
  qed
  moreover have "NaN \<notin> set (map hard_negative_score (map fst ?NP))"
    using nn unfolding f [of 0, symmetric] .
  ultimately obtain idx where idx: "neg_indices_for_loss self (length ?PP) (map fst ?NP) = Inr idx"
      "\<forall>i\<in>set idx. i < length ?NP"
      "map (nth ?NP) idx = hard_negatives self (length ?PP) ?NP"
    using neg_indices_for_loss_pairs [of ?NP self "length ?PP"] by blast
  have g1: "tf_gather (map fst ?NP) idx = Inr (map fst (hard_negatives self (length ?PP) ?NP))"
    using tf_gather_nth [of idx "map fst ?NP"] idx(2) map_nth_map [OF idx(2), of fst]
    by (simp only: idx(3) length_map)
  have g2: "tf_gather (map snd ?NP) idx = Inr (map snd (hard_negatives self (length ?PP) ?NP))"
    using tf_gather_nth [of idx "map snd ?NP"] idx(2) map_nth_map [OF idx(2), of snd]
    by (simp only: idx(3) length_map)
  have ce: "map2 softmax_cross_entropy_with_logits
              (map (one_hot (num_classes self))
                 (map snd ?PP @ map snd (hard_negatives self (length ?PP) ?NP)))
              (map fst ?PP @ map fst (hard_negatives self (length ?PP) ?NP))
            = map (anchor_cross_entropy (num_classes self))
                (?PP @ hard_negatives self (length ?PP) ?NP)"
    using cross_entropy_pairs [of "num_classes self" "?PP @ hard_negatives self (length ?PP) ?NP"]
    by simp
  show ?thesis
    unfolding loss_class_def rs Let_def sum.case
      tf_gather_anchors_with [OF pc] tf_gather_anchors_with [OF gc]
    unfolding f [of 1] sn [of 1] f [of 0] sn [of 0] length_map idx(1) sum.case g1 g2 ce
    by (simp add: reduce_sum_sum_list)
qed


lemma anchors_with_fst:
  assumes pc: "same_anchors pc pos" and gc: "same_anchors gc pos"
  shows "anchors_with v pc pos = map fst (anchors_with v (pair_anchors pc gc) pos)"
proof -
  have "length (anchors_with v pc pos) = length (anchors_with v gc pos)"
    by (simp only: length_anchors_with [OF pc] length_anchors_with [OF gc])
  then show ?thesis
    by (simp add: anchors_with_zip [OF pc gc, symmetric])
qed

lemma mset_concat_permute_anchors:
  assumes ps: "anchor_permutations ps pos" and t: "same_anchors t pos"
  shows "mset (concat (permute_anchors ps t)) = mset (concat t)"
proof (rule mset_concat_cong)
  have lp: "length ps = length pos" and lt: "length t = length pos"
    using anchor_permutationsD(1) [OF ps] same_anchorsD(1) [OF t] by simp_all
  show "length (permute_anchors ps t) = length t"
    by (simp add: permute_anchors_def lp lt)
  fix i assume "i < length (permute_anchors ps t)"
  then have i: "i < length pos"
    by (simp add: permute_anchors_def lp lt)
  have "mset (ps ! i) = mset [0..<length (t ! i)]"
    using anchor_permutationsD(2) [OF ps i] same_anchorsD(2) [OF t i] by simp
  then have "mset (permute (ps ! i) (t ! i)) = mset (t ! i)"
    by (rule mset_permute)
  then show "mset (permute_anchors ps t ! i) = mset (t ! i)"
    using i by (simp add: permute_anchors_def lp lt)
qed

lemma desc_key_inj: "rank_descending a = rank_descending b \<Longrightarrow> a = b"
  by (cases a; cases b) simp_all

lemma sum_list_map_mset:
  fixes f :: "'a \<Rightarrow> tf_float"
  assumes "mset xs = mset ys"
  shows "sum_list (map f xs) = sum_list (map f ys)"
proof -
  have "sum_mset (image_mset f (mset xs)) = sum_mset (image_mset f (mset ys))"
    using assms by simp
  then show ?thesis
    by (metis mset_map sum_mset_sum_list)
qed

lemma hard_negatives_mset:
  assumes m: "mset negs' = mset negs"
    and d: "distinct (map hard_negative_score (map fst negs))"
  shows "hard_negatives self n negs' = hard_negatives self n negs"
proof -
  let ?key = "\<lambda>x. rank_descending (hard_negative_score (fst x))"
  have "inj_on (\<lambda>x. hard_negative_score (fst x)) (set negs)"
    using d by (simp add: distinct_map comp_def)
  then have "inj_on ?key (set negs)"
    by (auto simp: inj_on_def dest!: desc_key_inj)
  then have i: "inj_on ?key (set negs')"
    using mset_eq_setD [OF m] by simp
  have e: "mset negs' = mset (sort_key ?key negs)"
    using m by simp
  have "sorted (map ?key (sort_key ?key negs))"
    by (rule sorted_sort_key)
  with e i have "sort_key ?key negs' = sort_key ?key negs"
    by (rule sort_key_inj_key_eq)
  then show ?thesis
    by (simp add: hard_negatives_def)
qed

lemma loss_class_permute:
  assumes ps: "anchor_permutations ps pos"
    and pc: "same_anchors pc pos" and gc: "same_anchors gc pos"
    and nc: "0 < num_classes self"
    and rows: "\<forall>row\<in>set (concat pc). length row = num_classes self"
    and d: "distinct (map hard_negative_score (anchors_with 0 pc pos))"
    and nn: "NaN \<notin> set (map hard_negative_score (anchors_with 0 pc pos))"
  shows "loss_class self (permute_anchors ps pc) (permute_anchors ps gc) (permute_anchors ps pos)
         = loss_class self pc gc pos"
proof -
  let ?pq = "pair_anchors pc gc"
  have pq: "same_anchors ?pq pos"
    using pc gc by (rule same_anchors_pair)
  have pair: "pair_anchors (permute_anchors ps pc) (permute_anchors ps gc)
              = permute_anchors ps ?pq"
    using ps pc gc by (rule permute_anchors_pair)
  have m: "mset (anchors_with v (permute_anchors ps ?pq) (permute_anchors ps pos))
           = mset (anchors_with v ?pq pos)" for v
    using ps pq by (rule mset_anchors_with_permute)
  have rows': "\<forall>row\<in>set (concat (permute_anchors ps pc)). length row = num_classes self"
    using mset_eq_setD [OF mset_concat_permute_anchors [OF ps pc]] rows by simp
  have l: "length (anchors_with 1 (permute_anchors ps ?pq) (permute_anchors ps pos))
           = length (anchors_with 1 ?pq pos)"
    using m [of 1] by (rule mset_eq_length)
  have h: "hard_negatives self n (anchors_with 0 (permute_anchors ps ?pq) (permute_anchors ps pos))
           = hard_negatives self n (anchors_with 0 ?pq pos)" for n
    using m [of 0] d unfolding anchors_with_fst [OF pc gc] by (rule hard_negatives_mset)
  have s: "sum_list (map f (anchors_with 1 (permute_anchors ps ?pq) (permute_anchors ps pos)))
           = sum_list (map f (anchors_with 1 ?pq pos))" for f :: "tensor1 \<times> int \<Rightarrow> tf_float"
    using m [of 1] by (rule sum_list_map_mset)
  have "mset (anchors_with 0 (permute_anchors ps pc) (permute_anchors ps pos))
        = mset (anchors_with 0 pc pos)"
    using ps pc by (rule mset_anchors_with_permute)
  then have "set (anchors_with 0 (permute_anchors ps pc) (permute_anchors ps pos))
        = set (anchors_with 0 pc pos)"
    by (rule mset_eq_setD)
  then have nn': "NaN \<notin> set (map hard_negative_score
        (anchors_with 0 (permute_anchors ps pc) (permute_anchors ps pos)))"
    using nn by simp
  show ?thesis
    unfolding loss_class_pairs [OF pc gc nc rows nn]
      loss_class_pairs [OF same_anchors_permute [OF ps pc] same_anchors_permute [OF ps gc] nc
        rows' nn']
      pair l h
    by (simp add: s)
qed

section \<open>Permutations and the mask loss\<close>

lemma map_nth_upt: "map (\<lambda>i. f (xs ! i)) [0..<length xs] = map f xs"
  by (rule nth_equalityI) simp_all

lemma matmul_transpose_b_cases:
  "matmul_transpose_b proto coefs
   = (if \<forall>c\<in>set coefs. list_all (\<lambda>row. list_all (\<lambda>v. length v = length c) row) proto
      then Inr (map (map (\<lambda>v. map (tf_dot v) coefs)) proto)
      else Inl InvalidArgument)"
  by (auto simp: matmul_transpose_b_def list_all_iff)

lemma transpose_201_matmul:
  "transpose_201 (length coefs) (map (map (\<lambda>v. map (tf_dot v) coefs)) proto)
   = map (anchor_pred_mask proto) coefs"
proof -
  have "transpose_201 (length coefs) (map (map (\<lambda>v. map (tf_dot v) coefs)) proto)
        = map (\<lambda>p. anchor_pred_mask proto (coefs ! p)) [0..<length coefs]"
    by (simp add: transpose_201_def anchor_pred_mask_def comp_def)
  then show ?thesis
    by (simp only: map_nth_upt)
qed

lemma tf_gather_int_cases:
  "tf_gather_int xs ids
   = (if \<forall>i\<in>set ids. 0 \<le> i \<and> nat i < length xs then Inr (map (\<lambda>i. xs ! nat i) ids)
      else Inl InvalidArgument)"
proof -
  have "(\<forall>i\<in>set ids. \<exists>y. (if 0 \<le> i then tf_index xs (nat i) else Inl InvalidArgument) = Inr y)
        = (\<forall>i\<in>set ids. 0 \<le> i \<and> nat i < length xs)"
    by (auto simp: tf_index_def split: if_splits)
  moreover have "\<forall>i\<in>set ids. 0 \<le> i \<and> nat i < length xs \<Longrightarrow>
      map (\<lambda>i. projr (if 0 \<le> i then tf_index xs (nat i) else Inl InvalidArgument)) ids
      = map (\<lambda>i. xs ! nat i) ids"
    by (simp add: tf_index_def)
  ultimately show ?thesis
    unfolding tf_gather_int_def sequence_err_map_cases by auto
qed

lemma box_area_cases:
  "box_area rows
   = (if \<forall>r\<in>set rows. 2 \<le> length r then Inr (map anchor_area rows) else Inl InvalidArgument)"
proof -
  have "(\<forall>r\<in>set rows. \<exists>y. (if 2 \<le> length r then Inr (r ! (length r - 1) * r ! (length r - 2))
                              else Inl InvalidArgument) = Inr y)
        = (\<forall>r\<in>set rows. 2 \<le> length r)"
    by auto
  moreover have "\<forall>r\<in>set rows. 2 \<le> length r \<Longrightarrow>
      map (\<lambda>r. projr (if 2 \<le> length r then Inr (r ! (length r - 1) * r ! (length r - 2))
                        else Inl InvalidArgument)) rows
      = map anchor_area rows"
    by (simp add: anchor_area_def)
  ultimately show ?thesis
    unfolding box_area_def sequence_err_map_cases by auto
qed

lemma zip_with_err_maps:
  "zip_with_err f (map g xs) (map h xs)
   = (if \<forall>x\<in>set xs. \<exists>y. f (g x) (h x) = Inr y then Inr (map (\<lambda>x. projr (f (g x) (h x))) xs)
      else Inl InvalidArgument)"
proof -
  have "map2 f (map g xs) (map h xs) = map (\<lambda>x. f (g x) (h x)) xs"
    by (induction xs) simp_all
  then show ?thesis
    by (simp add: zip_with_err_def sequence_err_map_cases)
qed


lemma anchor_losses_cases:
  "sequence_err (map (anchor_mask_loss c1 cr1 proto mg bn) pairs)
   = (if \<forall>x\<in>set pairs. anchor_mask_ok c1 proto mg bn x
      then Inr (map (anchor_mask_value c1 cr1 proto mg bn) pairs)
      else Inl InvalidArgument)"
proof -
  have "(\<forall>x\<in>set pairs. \<exists>y. anchor_mask_loss c1 cr1 proto mg bn x = Inr y)
        = (\<forall>x\<in>set pairs. anchor_mask_ok c1 proto mg bn x)"
    by (auto simp: anchor_mask_loss_def split: if_splits)
  moreover have "\<forall>x\<in>set pairs. anchor_mask_ok c1 proto mg bn x \<Longrightarrow>
      map (\<lambda>x. projr (anchor_mask_loss c1 cr1 proto mg bn x)) pairs
      = map (anchor_mask_value c1 cr1 proto mg bn) pairs"
    by (simp add: anchor_mask_loss_def)
  ultimately show ?thesis
    unfolding sequence_err_map_cases by auto
qed

lemma mask_stages_ok:
  assumes "\<forall>x\<in>set pairs. anchor_mask_ok c1 proto mg bn x"
  shows "matmul_transpose_b proto (map fst pairs)
         = Inr (map (map (\<lambda>v. map (tf_dot v) (map fst pairs))) proto)"
    and "tf_gather_int mg (map snd pairs) = Inr (map (\<lambda>x. mg ! nat (snd x)) pairs)"
    and "tf_gather_int bn (map snd pairs) = Inr (map (\<lambda>x. bn ! nat (snd x)) pairs)"
    and "box_area (map (\<lambda>x. c1 (bn ! nat (snd x))) pairs)
         = Inr (map (\<lambda>x. anchor_area (c1 (bn ! nat (snd x)))) pairs)"
    and "zip_with_err sigmoid_cross_entropy_with_logits2 (map (\<lambda>x. mg ! nat (snd x)) pairs)
           (map (\<lambda>x. anchor_pred_mask proto (fst x)) pairs)
         = Inr (map (\<lambda>x. projr (sigmoid_cross_entropy_with_logits2 (mg ! nat (snd x))
                                   (anchor_pred_mask proto (fst x)))) pairs)"
  using assms
  by (simp_all add: matmul_transpose_b_cases tf_gather_int_cases box_area_cases zip_with_err_maps
      anchor_mask_ok_def comp_def)

lemma mask_stages_Inr:
  assumes "matmul_transpose_b proto (map fst pairs) = Inr pm"
    and "tf_gather_int mg (map snd pairs) = Inr gt"
    and "tf_gather_int bn (map snd pairs) = Inr bbox"
    and "box_area (map c1 bbox) = Inr area"
    and "sigmoid_cross_entropy_with_logits3 gt
           (transpose_201 (length (map fst pairs)) pm) = Inr s"
  shows "\<forall>x\<in>set pairs. anchor_mask_ok c1 proto mg bn x"
proof
  fix x assume x: "x \<in> set pairs"
  have m: "\<forall>c\<in>set (map fst pairs). list_all (\<lambda>row. list_all (\<lambda>v. length v = length c) row) proto"
    and pm: "pm = map (map (\<lambda>v. map (tf_dot v) (map fst pairs))) proto"
    using assms(1) by (auto simp: matmul_transpose_b_cases split: if_splits)
  have g: "\<forall>i\<in>set (map snd pairs). 0 \<le> i \<and> nat i < length mg"
    and gt: "gt = map (\<lambda>x. mg ! nat (snd x)) pairs"
    using assms(2) by (auto simp: tf_gather_int_cases comp_def split: if_splits)
  have b: "\<forall>i\<in>set (map snd pairs). 0 \<le> i \<and> nat i < length bn"
    and bbox: "bbox = map (\<lambda>x. bn ! nat (snd x)) pairs"
    using assms(3) by (auto simp: tf_gather_int_cases comp_def split: if_splits)
  have a: "\<forall>r\<in>set (map c1 bbox). 2 \<le> length r"
    using assms(4) by (auto simp: box_area_cases split: if_splits)
  have "zip_with_err sigmoid_cross_entropy_with_logits2 (map (\<lambda>x. mg ! nat (snd x)) pairs)
           (map (\<lambda>x. anchor_pred_mask proto (fst x)) pairs) = Inr s"
    using assms(5) unfolding pm gt transpose_201_matmul sigmoid_cross_entropy_with_logits3_def
    by (simp add: comp_def)
  then have sg: "\<forall>x\<in>set pairs. \<exists>y. sigmoid_cross_entropy_with_logits2 (mg ! nat (snd x))
                 (anchor_pred_mask proto (fst x)) = Inr y"
    by (auto simp: zip_with_err_maps split: if_splits)
  show "anchor_mask_ok c1 proto mg bn x"
    using x m g b a sg by (auto simp: anchor_mask_ok_def bbox)
qed


lemma select_eq_fst_snd:
  assumes "length xs = length ps" and "length ys = length ps"
  shows "select_eq v xs ps = map fst (select_eq v (zip xs ys) ps)"
    and "select_eq v ys ps = map snd (select_eq v (zip xs ys) ps)"
proof -
  have "length (select_eq v xs ps) = length (select_eq v ys ps)"
    using assms by (rule length_select_eq)
  then show "select_eq v xs ps = map fst (select_eq v (zip xs ys) ps)"
    and "select_eq v ys ps = map snd (select_eq v (zip xs ys) ps)"
    by (simp_all add: select_eq_zip [OF assms, symmetric])
qed

lemma loss_mask_image_anchors:
  assumes lm: "length mc = length pos" and li: "length mi = length pos"
  shows "loss_mask_image (anchorwise_utils c1 cr1) proto mc mg bn pos mi
         = (case sequence_err (map (anchor_mask_loss c1 cr1 proto mg bn)
                    (select_eq 1 (zip mc mi) pos)) of
              Inl e \<Rightarrow> Inl e
            | Inr ls \<Rightarrow> Inr (sum_list ls, length ls))"
proof -
  let ?pairs = "select_eq 1 (zip mc mi) pos"
  have g1: "tf_gather mc (tf_where_eq pos 1) = Inr (map fst ?pairs)"
    using tf_gather_where [OF lm, of 1] by (simp only: select_eq_fst_snd(1) [OF lm li])
  have g2: "tf_gather mi (tf_where_eq pos 1) = Inr (map snd ?pairs)"
    using tf_gather_where [OF li, of 1] by (simp only: select_eq_fst_snd(2) [OF lm li])
  have lw: "length (tf_where_eq pos 1) = length ?pairs"
    using g1 unfolding tf_gather_def by (auto dest: length_sequence_err_map)
  show ?thesis
  proof (cases "\<forall>x\<in>set ?pairs. anchor_mask_ok c1 proto mg bn x")
    case True
    note st = mask_stages_ok [OF True]
    have v: "map2 (/) (map (\<lambda>m. reduce_sum (concat m))
                 (map2 cr1 (map (\<lambda>x. projr (sigmoid_cross_entropy_with_logits2 (mg ! nat (snd x))
                                   (anchor_pred_mask proto (fst x)))) ?pairs)
                    (map (\<lambda>x. bn ! nat (snd x)) ?pairs)))
               (map (\<lambda>x. anchor_area (c1 (bn ! nat (snd x)))) ?pairs)
             = map (anchor_mask_value c1 cr1 proto mg bn) ?pairs"
      by (simp add: zip_map_map zip_same_conv_map comp_def anchor_mask_value_def)
    show ?thesis
      unfolding loss_mask_image_def Let_def g1 g2 sum.case st(1) transpose_201_matmul st(2) st(3)
        anchor_losses_cases anchorwise_utils_def
      using True st(4) st(5) v
      by (simp add: comp_def sigmoid_cross_entropy_with_logits3_def tf_broadcast_def lw
          reduce_sum_sum_list)
  next
    case False
    have "loss_mask_image (anchorwise_utils c1 cr1) proto mc mg bn pos mi \<noteq> Inr r" for r
    proof
      assume "loss_mask_image (anchorwise_utils c1 cr1) proto mc mg bn pos mi = Inr r"
      then obtain pm gt bbox area s where
        "matmul_transpose_b proto (map fst ?pairs) = Inr pm"
        "tf_gather_int mg (map snd ?pairs) = Inr gt"
        "tf_gather_int bn (map snd ?pairs) = Inr bbox"
        "box_area (map c1 bbox) = Inr area"
        "sigmoid_cross_entropy_with_logits3 gt (transpose_201 (length (map fst ?pairs)) pm) = Inr s"
        unfolding loss_mask_image_def Let_def g1 g2 sum.case anchorwise_utils_def
        by (auto split: sum.splits)
      then have "\<forall>x\<in>set ?pairs. anchor_mask_ok c1 proto mg bn x"
        by (rule mask_stages_Inr)
      with False show False by simp
    qed
    then have "loss_mask_image (anchorwise_utils c1 cr1) proto mc mg bn pos mi = Inl InvalidArgument"
      by (cases "loss_mask_image (anchorwise_utils c1 cr1) proto mc mg bn pos mi")
         (auto simp: tf_error_is)
    then show ?thesis
      using False by (simp add: anchor_losses_cases)
  qed
qed


lemma loss_mask_image_permute:
  assumes p: "mset p = mset [0..<length pos]"
    and lm: "length mc = length pos" and li: "length mi = length pos"
  shows "loss_mask_image (anchorwise_utils c1 cr1) proto (permute p mc) mg bn (permute p pos)
           (permute p mi)
         = loss_mask_image (anchorwise_utils c1 cr1) proto mc mg bn pos mi"
proof -
  have lp: "length p = length pos"
    using p by (rule perm_length)
  have pm: "mset p = mset [0..<length mc]"
    using p lm by simp
  have pz: "mset p = mset [0..<length (zip mc mi)]"
    using p lm li by simp
  have "zip (permute p mc) (permute p mi) = permute p (zip mc mi)"
    using pm li lm by (intro zip_permute) simp_all
  moreover have "mset (select_eq 1 (permute p (zip mc mi)) (permute p pos))
                 = mset (select_eq 1 (zip mc mi) pos)"
    using pz lm li by (intro mset_select_eq_permute) simp_all
  ultimately have "mset (select_eq 1 (zip (permute p mc) (permute p mi)) (permute p pos))
                   = mset (select_eq 1 (zip mc mi) pos)"
    by simp
  then show ?thesis
    unfolding loss_mask_image_anchors [OF lm li]
      loss_mask_image_anchors [of "permute p mc" "permute p pos" "permute p mi",
        unfolded length_permute, OF refl refl]
    by (rule sum_err_mset)
qed

lemma loss_mask_loop_permute:
  assumes ps: "anchor_permutations ps pos"
    and mc: "same_anchors mc pos" and mi: "same_anchors mi pos"
  shows "loss_mask_loop (anchorwise_utils c1 cr1) pr (permute_anchors ps mc) bb gm
           (permute_anchors ps pos) (permute_anchors ps mi) idxs acc
         = loss_mask_loop (anchorwise_utils c1 cr1) pr mc bb gm pos mi idxs acc"
proof (induction idxs arbitrary: acc)
  case Nil
  then show ?case by (cases acc) simp
next
  case (Cons idx idxs)
  obtain l n where acc: "acc = (l, n)"
    by (cases acc)
  have lp: "length ps = length pos" and lc: "length mc = length pos" and lm: "length mi = length pos"
    using anchor_permutationsD(1) [OF ps] same_anchorsD(1) [OF mc] same_anchorsD(1) [OF mi]
    by simp_all
  show ?case
  proof (cases "idx < length pos")
    case True
    have "loss_mask_image (anchorwise_utils c1 cr1) proto (permute (ps ! idx) (mc ! idx)) mg bn
            (permute (ps ! idx) (pos ! idx)) (permute (ps ! idx) (mi ! idx))
          = loss_mask_image (anchorwise_utils c1 cr1) proto (mc ! idx) mg bn (pos ! idx) (mi ! idx)"
      for proto mg bn
      using anchor_permutationsD(2) [OF ps True] same_anchorsD(2) [OF mc True]
        same_anchorsD(2) [OF mi True]
      by (rule loss_mask_image_permute)
    then show ?thesis
      using True Cons.IH
      by (simp add: acc tf_index_def permute_anchors_def lp lc lm split: sum.splits)
  next
    case False
    then show ?thesis
      by (simp add: acc tf_index_def permute_anchors_def lp lc lm split: sum.splits)
  qed
qed

lemma loss_mask_permute:
  assumes "anchor_permutations ps pos" and "same_anchors mc pos" and "same_anchors mi pos"
  shows "loss_mask (anchorwise_utils c1 cr1) pr (permute_anchors ps mc) bb gm
           (permute_anchors ps pos) (permute_anchors ps mi) m
         = loss_mask (anchorwise_utils c1 cr1) pr mc bb gm pos mi m"
  by (simp add: loss_mask_def loss_mask_loop_permute [OF assms])

section \<open>The losses under a permutation of the anchors\<close>

lemma spec_utils_anchorwise:
  "spec_utils inside = anchorwise_utils to_center_form (crop_to_box inside)"
  by (simp add: spec_utils_def anchorwise_utils_def)

text \<open>
  A permutation of the anchors of every image, applied to all the per-anchor tensors,
  leaves the localization, the mask and the segmentation loss unchanged (with \<open>utils\<close>
  functions that work anchor by anchor). It leaves the classification loss unchanged when
  the scores by which the code sorts the negative anchors, \<open>- log\<close> of the raw class 0
  logit, are pairwise different and none of them is \<open>NaN\<close>: then the negatives that enter
  the loss are the same anchors in both orders.
\<close>

lemma permuted_batch_losses:
  assumes "anchor_permutations ps (positiveness yt)"
    and "anchors_agree yt yp"
    and "0 < num_classes self"
    and "\<forall>row\<in>set (concat (pred_cls yp)). length row = num_classes self"
    and "distinct (map hard_negative_score (anchors_with 0 (pred_cls yp) (positiveness yt)))"
    and "NaN \<notin> set (map hard_negative_score (anchors_with 0 (pred_cls yp) (positiveness yt)))"
  shows "loss_location (pred_offset (permute_y_pred ps yp)) (box_targets (permute_y_true ps yt))
           (positiveness (permute_y_true ps yt))
         = loss_location (pred_offset yp) (box_targets yt) (positiveness yt)
       \<and> loss_class self (pred_cls (permute_y_pred ps yp)) (cls_targets (permute_y_true ps yt))
           (positiveness (permute_y_true ps yt))
         = loss_class self (pred_cls yp) (cls_targets yt) (positiveness yt)
       \<and> loss_mask (anchorwise_utils c1 cr1) (proto_out (permute_y_pred ps yp))
           (pred_mask_coef (permute_y_pred ps yp)) (bbox_for_norm (permute_y_true ps yt))
           (mask_target (permute_y_true ps yt)) (positiveness (permute_y_true ps yt))
           (max_id_for_anchors (permute_y_true ps yt)) (max_masks_for_train self)
         = loss_mask (anchorwise_utils c1 cr1) (proto_out yp) (pred_mask_coef yp)
             (bbox_for_norm yt) (mask_target yt) (positiveness yt) (max_id_for_anchors yt)
             (max_masks_for_train self)
       \<and> loss_semantic_segmentation (seg (permute_y_pred ps yp))
           (mask_target (permute_y_true ps yt)) (classes (permute_y_true ps yt))
           (num_obj (permute_y_true ps yt))
         = loss_semantic_segmentation (seg yp) (mask_target yt) (classes yt) (num_obj yt)
       \<and> YOLACTLoss_call (anchorwise_utils c1 cr1) self (permute_y_true ps yt)
           (permute_y_pred ps yp)
         = YOLACTLoss_call (anchorwise_utils c1 cr1) self yt yp"
proof -
  note a = assms(2) [unfolded anchors_agree_def]
  have loc: "loss_location (permute_anchors ps (pred_offset yp))
               (permute_anchors ps (box_targets yt)) (permute_anchors ps (positiveness yt))
             = loss_location (pred_offset yp) (box_targets yt) (positiveness yt)"
    using assms(1) a by (intro loss_location_permute) simp_all
  have cls: "loss_class self (permute_anchors ps (pred_cls yp))
               (permute_anchors ps (cls_targets yt)) (permute_anchors ps (positiveness yt))
             = loss_class self (pred_cls yp) (cls_targets yt) (positiveness yt)"
    using assms(1,3,4,5,6) a by (intro loss_class_permute) simp_all
  have mask: "loss_mask (anchorwise_utils c1 cr1) pr (permute_anchors ps (pred_mask_coef yp)) bb gm
               (permute_anchors ps (positiveness yt)) (permute_anchors ps (max_id_for_anchors yt)) m
             = loss_mask (anchorwise_utils c1 cr1) pr (pred_mask_coef yp) bb gm (positiveness yt)
                 (max_id_for_anchors yt) m" for pr bb gm m
    using assms(1) a by (intro loss_mask_permute) simp_all
  have sel: "pred_offset (permute_y_pred ps yp) = permute_anchors ps (pred_offset yp)"
    "pred_cls (permute_y_pred ps yp) = permute_anchors ps (pred_cls yp)"
    "pred_mask_coef (permute_y_pred ps yp) = permute_anchors ps (pred_mask_coef yp)"
    "proto_out (permute_y_pred ps yp) = proto_out yp"
    "seg (permute_y_pred ps yp) = seg yp"
    "box_targets (permute_y_true ps yt) = permute_anchors ps (box_targets yt)"
    "cls_targets (permute_y_true ps yt) = permute_anchors ps (cls_targets yt)"
    "positiveness (permute_y_true ps yt) = permute_anchors ps (positiveness yt)"
    "max_id_for_anchors (permute_y_true ps yt) = permute_anchors ps (max_id_for_anchors yt)"
    "bbox_for_norm (permute_y_true ps yt) = bbox_for_norm yt"
    "mask_target (permute_y_true ps yt) = mask_target yt"
    "classes (permute_y_true ps yt) = classes yt"
    "num_obj (permute_y_true ps yt) = num_obj yt"
    by (simp_all add: permute_y_true_def permute_y_pred_def)
  show ?thesis
    unfolding YOLACTLoss_call_def sel loc cls mask by simp
qed


lemma permuted_batch_losses_example:
  "anchor_permutations [[2, 0, 1]] (positiveness ex3_true)
   \<and> permute_anchors [[2, 0, 1]] (positiveness ex3_true) = [[0, 1, 0]]
   \<and> YOLACTLoss_call (spec_utils inside_closed) (YOLACTLoss_init 2)
         (permute_y_true [[2, 0, 1]] ex3_true) (permute_y_pred [[2, 0, 1]] ex3_pred)
       = YOLACTLoss_call (spec_utils inside_closed) (YOLACTLoss_init 2) ex3_true ex3_pred"
  using permuted_batch_losses
    [of "[[2, 0, 1]]" ex3_true ex3_pred "YOLACTLoss_init 2" to_center_form
      "crop_to_box inside_closed"]
  by (simp add: spec_utils_anchorwise [symmetric] anchor_permutations_def anchors_agree_def
      same_anchors_def ex3_true_def ex3_pred_def ex_true_def ex_pred_def YOLACTLoss_init_def
      anchors_with_def select_eq_def hard_negative_score_def permute_anchors_def permute_def
      upt_conv_Cons add_mset_commute del: mset_upt)

lemma swap_first_last_negative:
  "anchor_permutations [[0, 4, 2, 3, 1]] [[1, 0, 0, 0, 0 :: int]]"
  by (simp add: anchor_permutations_def upt_conv_Cons eval_nat_numeral add_mset_commute
      del: mset_upt)

lemma tied_scores_loss:
  "loss_class (YOLACTLoss_init 2) ex5_cls [[1, 0, 0, 0, 0]] [[1, 0, 0, 0, 0]]
   = Inr (Fin (4 * ln 2))"
  by (simp add: ex5_cls_def upt_conv_Cons cls_defs tf_ops_defs YOLACTLoss_init_def Let_def
      ln_mult)

lemma tied_scores_loss_permuted:
  "loss_class (YOLACTLoss_init 2) (permute_anchors [[0, 4, 2, 3, 1]] ex5_cls)
     (permute_anchors [[0, 4, 2, 3, 1]] [[1, 0, 0, 0, 0]])
     (permute_anchors [[0, 4, 2, 3, 1]] [[1, 0, 0, 0, 0]])
   = Inr (Fin (3 * ln 2 + ln (exp 1 + 1) - 1))"
proof -
  have "0 < exp (1::real) + 1"
    by (simp add: add_pos_pos)
  then show ?thesis
    by (simp add: ex5_cls_def permute_anchors_def permute_def upt_conv_Cons cls_defs
        tf_ops_defs YOLACTLoss_init_def Let_def ln_mult)
qed

lemma tied_scores_background_probability:
  "minus_log_background_probability [1, 0] < minus_log_background_probability [1, 1]"
proof -
  have "1 < exp (1::real)"
    by simp
  then have "exp (1::real) / (exp 1 + exp 1) < exp 1 / (exp 1 + 1)"
    by (simp add: field_simps add_pos_pos)
  moreover have "0 < exp (1::real) / (exp 1 + exp 1)"
    by simp
  ultimately have "ln (exp (1::real) / (exp 1 + exp 1)) < ln (exp 1 / (exp 1 + 1))"
    by (subst ln_less_cancel_iff) (simp_all add: add_pos_pos)
  then show ?thesis
    by (simp add: minus_log_background_probability_def)
qed

text \<open>
  Claim C8 says that a permutation of the anchors changes none of the four losses. The
  classification loss of the code changes. Take one image with the default ratio 3, a
  positive anchor of the logits \<open>[0, 0]\<close> and of class 1, and four negative anchors of the
  logits \<open>[1, 1]\<close>, \<open>[1, 1]\<close>, \<open>[1, 1]\<close>, \<open>[1, 0]\<close>. The code sorts the negatives by
  \<open>- log\<close> of the raw class 0 logit, which is \<open>- log 1 = 0\<close> for the four of them, and
  \<^verbatim>\<open>tf.argsort\<close> puts the lower index first among equal values: the first three negatives
  enter the loss, which is \<open>4 * ln 2\<close>. After the exchange of the first and the last
  negative anchor (in the logits, the class targets and the positiveness) the anchor
  \<open>[1, 0]\<close> is among the first three, and the loss is \<open>3 * ln 2 + ln (exp 1 + 1) - 1\<close>.
  By the score that the comments of the code announce, \<open>- log\<close> of the softmax probability
  of class 0, the anchor \<open>[1, 0]\<close> is the easiest of the four negatives, so that the three
  anchors \<open>[1, 1]\<close> would be selected in either order.
\<close>

theorem loss_class_changes_under_permutation:
  "anchor_permutations [[0, 4, 2, 3, 1]] [[1, 0, 0, 0, 0 :: int]]
   \<and> same_anchors ex5_cls [[1, 0, 0, 0, 0 :: int]]
   \<and> loss_class (YOLACTLoss_init 2) ex5_cls [[1, 0, 0, 0, 0]] [[1, 0, 0, 0, 0]]
       = Inr (Fin (4 * ln 2))
   \<and> loss_class (YOLACTLoss_init 2) (permute_anchors [[0, 4, 2, 3, 1]] ex5_cls)
         (permute_anchors [[0, 4, 2, 3, 1]] [[1, 0, 0, 0, 0]])
         (permute_anchors [[0, 4, 2, 3, 1]] [[1, 0, 0, 0, 0]])
       = Inr (Fin (3 * ln 2 + ln (exp 1 + 1) - 1))
   \<and> loss_class (YOLACTLoss_init 2) (permute_anchors [[0, 4, 2, 3, 1]] ex5_cls)
         (permute_anchors [[0, 4, 2, 3, 1]] [[1, 0, 0, 0, 0]])
         (permute_anchors [[0, 4, 2, 3, 1]] [[1, 0, 0, 0, 0]])
       \<noteq> loss_class (YOLACTLoss_init 2) ex5_cls [[1, 0, 0, 0, 0]] [[1, 0, 0, 0, 0]]
   \<and> minus_log_background_probability [1, 0] < minus_log_background_probability [1, 1]"
proof -
  have "loss_class (YOLACTLoss_init 2) (permute_anchors [[0, 4, 2, 3, 1]] ex5_cls)
         (permute_anchors [[0, 4, 2, 3, 1]] [[1, 0, 0, 0, 0]])
         (permute_anchors [[0, 4, 2, 3, 1]] [[1, 0, 0, 0, 0]])
       \<noteq> loss_class (YOLACTLoss_init 2) ex5_cls [[1, 0, 0, 0, 0]] [[1, 0, 0, 0, 0]]"
    by (simp add: ex5_cls_def permute_anchors_def permute_def upt_conv_Cons cls_defs
        tf_ops_defs YOLACTLoss_init_def Let_def)
  moreover have "same_anchors ex5_cls [[1, 0, 0, 0, 0 :: int]]"
    by (simp add: same_anchors_def ex5_cls_def)
  ultimately show ?thesis
    using swap_first_last_negative tied_scores_loss tied_scores_loss_permuted
      tied_scores_background_probability
    by blast
qed

end
